theory Spec2Isabelle
  imports Main "HOL-Library.Word" "HOL-Library.Multiset"
begin

section \<open>Paired-end best-approximate alignment driver (aligner\_best\_approx\_paired.h)\<close>

text \<open>
  The file holds two host-side drivers, \<open>Aligner::best_approx\<close> and
  \<open>Aligner::best_approx_score\<close>. Both run on the host, strictly one stage after the
  other, and launch device kernels that are declared in other headers (select.h, locate.h,
  score.h, reduce.h, traceback.h). The embedding keeps the host control flow as it is
  written and takes every kernel as a parameter: an arbitrary function on the device
  memory. Timers, statistics, debug logging and the \<open>persist_*\<close> dumps change nothing
  the drivers branch on and are left out.
\<close>

text \<open>Machine integers. The drivers only compare scores for equality, so an \<open>int32\<close>
  is kept as its 32 bits.\<close>

type_synonym uint32 = "32 word"
type_synonym int32 = "32 word"

text \<open>\<open>nvbio::cuda::check_error\<close> throws when the backend reports a fault. The thrust
  algorithms have undefined behaviour when a range leaves its buffer, and so has an integer
  division by zero; the model reports both as errors of their own.\<close>

datatype error = Cuda_error string | Out_of_bounds string | Division_by_zero

text \<open>The fields of \<open>Params\<close> that the two drivers branch on.\<close>

record Params =
  max_reseed :: uint32
  max_ext :: uint32

subsection \<open>Sequencing of fallible steps\<close>

fun seq :: "('s \<Rightarrow> error + 's) list \<Rightarrow> 's \<Rightarrow> error + 's" where
  "seq [] s = Inr s"
| "seq (f # fs) s = (case f s of Inl e \<Rightarrow> Inl e | Inr s' \<Rightarrow> seq fs s')"

definition when_nz :: "('s \<Rightarrow> uint32) \<Rightarrow> ('s \<Rightarrow> error + 's) \<Rightarrow> 's \<Rightarrow> error + 's" where
  "when_nz n body s = (if n s \<noteq> 0 then body s else Inr s)"

subsection \<open>thrust primitives used by the host code\<close>

text \<open>\<open>thrust::copy_if(counting(0), counting(0) + cnt, stencil, result, pred)\<close>:
  the indices \<open>i < cnt\<close> with \<open>pred (stencil[i])\<close>, in increasing order. The stencil is
  read at every index below \<open>cnt\<close>.\<close>

definition copy_if :: "uint32 \<Rightarrow> 'a list \<Rightarrow> ('a \<Rightarrow> bool) \<Rightarrow> uint32 list option" where
  "copy_if cnt stencil pred =
     (if unat cnt \<le> length stencil
      then Some (map of_nat (filter (\<lambda>i. pred (stencil ! i)) [0..<unat cnt]))
      else None)"

text \<open>\<open>thrust::make_permutation_iterator(values, indices)\<close> read at positions
  \<open>0 .. n-1\<close>: position \<open>k\<close> reads \<open>values[indices[k]]\<close>.\<close>

definition permutation_gather :: "nat \<Rightarrow> 'a list \<Rightarrow> uint32 list \<Rightarrow> 'a list option" where
  "permutation_gather n vals idx =
     (if n \<le> length idx \<and> list_all (\<lambda>k. unat (idx ! k) < length vals) [0..<n]
      then Some (map (\<lambda>k. vals ! unat (idx ! k)) [0..<n])
      else None)"

text \<open>Writing a result range at the beginning of a device vector.\<close>

definition write_prefix :: "'a list \<Rightarrow> 'a list \<Rightarrow> 'a list option" where
  "write_prefix res buf =
     (if length res \<le> length buf then Some (res @ drop (length res) buf) else None)"

text \<open>\<open>thrust::fill(buf.begin(), buf.begin() + n, v)\<close>.\<close>

definition fill :: "nat \<Rightarrow> 'a \<Rightarrow> 'a list \<Rightarrow> 'a list option" where
  "fill n v buf = (if n \<le> length buf then Some (replicate n v @ drop n buf) else None)"

section \<open>The extension and scoring loop (\<open>Aligner::best_approx_score\<close>)\<close>

subsection \<open>State\<close>

text \<open>Device memory: the three buffers the host code itself reads or writes
  (\<open>scoring_queues.hits.score\<close>, \<open>scoring_queues.hits.opposite_score\<close>,
  \<open>opposite_queue_dvec\<close>) and everything else (hit deques, read queues, location queue,
  best alignments, \<open>trys\<close>) as an opaque component.\<close>

record 'd device =
  opaque :: 'd
  score :: "int32 list"
  opposite_score :: "int32 list"
  opposite_queue :: "uint32 list"

text \<open>What the loop did, in program order. \<open>Ev_round\<close> is written at the head of the loop
  body (the place of the \<open>log_debug\<close> of the pass) with \<open>extension_pass\<close>, \<open>n_ext\<close> and
  \<open>active_read_queues.in_size\<close>.\<close>

datatype sevent =
    Ev_round uint32 uint32 uint32
  | Ev_clear_output
  | Ev_setup uint32 uint32
  | Ev_select
  | Ev_swap
  | Ev_sort_hi_bits
  | Ev_locate_init
  | Ev_locate_lookup
  | Ev_anchor_score_best
  | Ev_compact_opposite "uint32 list"
  | Ev_fill_opposite_score uint32
  | Ev_opposite_score_best
  | Ev_score_reduce_paired uint32 "int32 list"

text \<open>Host variables of the loop (\<open>active_read_queues.in_size\<close>, the fields of
  \<open>pipeline\<close> the host assigns, \<open>n_ext\<close>, \<open>extension_pass\<close>), the device memory and the
  event list.\<close>

record 'd sstate =
  in_size :: uint32
  n_hits_per_read :: uint32
  hits_queue_size :: uint32
  idx_queue :: "uint32 list"
  opposite_queue_size :: uint32
  n_ext :: uint32
  extension_pass :: uint32
  dev :: "'d device"
  trace :: "sevent list"

text \<open>The external kernels and queue operations. Each one sees the host variables it is
  handed (here: the whole host state, which is more than any of them receives) and returns
  the new device memory. \<open>p_swap\<close> is \<open>active_read_queues.swap()\<close>, which also yields
  the new \<open>in_size\<close>; \<open>p_hits_count\<close> is \<open>scoring_queues.hits_count()\<close>;
  \<open>p_sort_hi_bits\<close> yields the index queue it sorted; \<open>p_check_error msg\<close> says whether
  the backend reports a fault at the \<open>check_error(msg)\<close> call.\<close>

record 'd sprims =
  p_clear_output :: "'d sstate \<Rightarrow> 'd device"
  p_setup :: "'d sstate \<Rightarrow> 'd device"
  p_select :: "'d sstate \<Rightarrow> 'd device"
  p_swap :: "'d sstate \<Rightarrow> uint32 \<times> 'd device"
  p_hits_count :: "'d device \<Rightarrow> uint32"
  p_sort_hi_bits :: "'d sstate \<Rightarrow> uint32 list \<times> 'd device"
  p_locate_init :: "'d sstate \<Rightarrow> 'd device"
  p_locate_lookup :: "'d sstate \<Rightarrow> 'd device"
  p_anchor_score_best :: "'d sstate \<Rightarrow> 'd device"
  p_opposite_score_best :: "'d sstate \<Rightarrow> 'd device"
  p_score_reduce_paired :: "'d sstate \<Rightarrow> 'd device"
  p_check_error :: "string \<Rightarrow> 'd device \<Rightarrow> bool"

definition log_ev :: "sevent \<Rightarrow> 'd sstate \<Rightarrow> 'd sstate" where
  "log_ev e s = s\<lparr>trace := trace s @ [e]\<rparr>"

definition check_error :: "'d sprims \<Rightarrow> string \<Rightarrow> 'd sstate \<Rightarrow> error + 'd sstate" where
  "check_error P msg s = (if p_check_error P msg (dev s) then Inl (Cuda_error msg) else Inr s)"

subsection \<open>Adaptive batching (lines 718--738)\<close>

text \<open>\<open>pipeline.n_hits_per_read = 1; if (in_size <= BATCH_SIZE/2) { max_ext = min(4096u,
  params.max_ext - n_ext); n_hits_per_read = min(BATCH_SIZE / in_size, max_ext); }\<close>.
  All operands are \<open>uint32\<close> (\<open>std::min\<close> takes two arguments of one type), so the
  subtraction wraps. \<open>BATCH_SIZE\<close> is a constant of another header and is a parameter.\<close>

definition hits_per_read :: "uint32 \<Rightarrow> Params \<Rightarrow> uint32 \<Rightarrow> uint32 \<Rightarrow> uint32" where
  "hits_per_read BATCH_SIZE params n_ext0 in_size0 =
     (if in_size0 \<le> BATCH_SIZE div 2
      then (let max_ext0 = min 4096 (max_ext params - n_ext0)
            in min (BATCH_SIZE div in_size0) max_ext0)
      else 1)"

subsection \<open>One round\<close>

definition clear_output_step :: "'d sprims \<Rightarrow> 'd sstate \<Rightarrow> error + 'd sstate" where
  "clear_output_step P s = Inr (log_ev Ev_clear_output (s\<lparr>dev := p_clear_output P s\<rparr>))"

text \<open>With an empty queue the test \<open>in_size <= BATCH_SIZE/2\<close> holds and the division
  \<open>BATCH_SIZE / in_size\<close> is by zero. (The loop enters its body with a non-empty queue
  only.)\<close>

definition choose_hits_per_read :: "uint32 \<Rightarrow> Params \<Rightarrow> 'd sstate \<Rightarrow> error + 'd sstate" where
  "choose_hits_per_read BATCH_SIZE params s =
     (if in_size s = 0 then Inl Division_by_zero
      else Inr (s\<lparr>n_hits_per_read := hits_per_read BATCH_SIZE params (n_ext s) (in_size s)\<rparr>))"

definition setup_step :: "'d sprims \<Rightarrow> 'd sstate \<Rightarrow> error + 'd sstate" where
  "setup_step P s =
     Inr (log_ev (Ev_setup (n_hits_per_read s) (in_size s)) (s\<lparr>dev := p_setup P s\<rparr>))"

definition select_step :: "'d sprims \<Rightarrow> 'd sstate \<Rightarrow> error + 'd sstate" where
  "select_step P s = Inr (log_ev Ev_select (s\<lparr>dev := p_select P s\<rparr>))"

definition swap_step :: "'d sprims \<Rightarrow> 'd sstate \<Rightarrow> error + 'd sstate" where
  "swap_step P s =
     (case p_swap P s of (sz, d) \<Rightarrow> Inr (log_ev Ev_swap (s\<lparr>in_size := sz, dev := d\<rparr>)))"

text \<open>Lines 697--774: from \<open>scoring_queues.clear_output()\<close> to the swap of the
  active-read queues.\<close>

definition select_round :: "'d sprims \<Rightarrow> uint32 \<Rightarrow> Params \<Rightarrow> 'd sstate \<Rightarrow> error + 'd sstate" where
  "select_round P BATCH_SIZE params =
     seq [clear_output_step P,
          choose_hits_per_read BATCH_SIZE params,
          setup_step P,
          select_step P,
          check_error P ''select kernel'',
          swap_step P]"

text \<open>Line 781: \<open>hits_queue_size = n_hits_per_read > 1 ? scoring_queues.hits_count() :
  active_read_queues.in_size\<close>.\<close>

definition fetch_hits_queue_size :: "'d sprims \<Rightarrow> 'd sstate \<Rightarrow> 'd sstate" where
  "fetch_hits_queue_size P s =
     s\<lparr>hits_queue_size := (if 1 < n_hits_per_read s then p_hits_count P (dev s) else in_size s)\<rparr>"

definition sort_hi_bits_step :: "'d sprims \<Rightarrow> 'd sstate \<Rightarrow> error + 'd sstate" where
  "sort_hi_bits_step P s =
     (case p_sort_hi_bits P s of (idx, d) \<Rightarrow>
        Inr (log_ev Ev_sort_hi_bits (s\<lparr>idx_queue := idx, dev := d\<rparr>)))"

definition locate_init_step :: "'d sprims \<Rightarrow> 'd sstate \<Rightarrow> error + 'd sstate" where
  "locate_init_step P s = Inr (log_ev Ev_locate_init (s\<lparr>dev := p_locate_init P s\<rparr>))"

definition locate_lookup_step :: "'d sprims \<Rightarrow> 'd sstate \<Rightarrow> error + 'd sstate" where
  "locate_lookup_step P s = Inr (log_ev Ev_locate_lookup (s\<lparr>dev := p_locate_lookup P s\<rparr>))"

definition anchor_score_step :: "'d sprims \<Rightarrow> 'd sstate \<Rightarrow> error + 'd sstate" where
  "anchor_score_step P s =
     Inr (log_ev Ev_anchor_score_best (s\<lparr>dev := p_anchor_score_best P s\<rparr>))"

text \<open>Lines 889--896: the positions \<open>k < hits_queue_size\<close> whose anchor score
  \<open>score[idx_queue[k]]\<close> is not \<open>worst_score\<close>, written to the front of
  \<open>opposite_queue_dvec\<close>; their number becomes \<open>opposite_queue_size\<close>.\<close>

definition compact_opposite :: "int32 \<Rightarrow> 'd sstate \<Rightarrow> error + 'd sstate" where
  "compact_opposite worst_score s =
     (case permutation_gather (unat (hits_queue_size s)) (score (dev s)) (idx_queue s) of
        None \<Rightarrow> Inl (Out_of_bounds ''compact opposite'')
      | Some stencil \<Rightarrow>
         (case copy_if (hits_queue_size s) stencil (\<lambda>x. x \<noteq> worst_score) of
            None \<Rightarrow> Inl (Out_of_bounds ''compact opposite'')
          | Some res \<Rightarrow>
             (case write_prefix res (opposite_queue (dev s)) of
                None \<Rightarrow> Inl (Out_of_bounds ''compact opposite'')
              | Some q \<Rightarrow>
                 Inr (log_ev (Ev_compact_opposite res)
                       (s\<lparr>opposite_queue_size := of_nat (length res),
                          dev := (dev s)\<lparr>opposite_queue := q\<rparr>\<rparr>)))))"

text \<open>Lines 898--902: \<open>thrust::fill(opposite_score, opposite_score + hits_queue_size,
  worst_score)\<close>.\<close>

definition fill_opposite_score :: "int32 \<Rightarrow> 'd sstate \<Rightarrow> error + 'd sstate" where
  "fill_opposite_score worst_score s =
     (case fill (unat (hits_queue_size s)) worst_score (opposite_score (dev s)) of
        None \<Rightarrow> Inl (Out_of_bounds ''fill opposite score'')
      | Some b \<Rightarrow>
         Inr (log_ev (Ev_fill_opposite_score (hits_queue_size s))
               (s\<lparr>dev := (dev s)\<lparr>opposite_score := b\<rparr>\<rparr>)))"

definition opposite_score_step :: "'d sprims \<Rightarrow> 'd sstate \<Rightarrow> error + 'd sstate" where
  "opposite_score_step P s =
     Inr (log_ev Ev_opposite_score_best (s\<lparr>dev := p_opposite_score_best P s\<rparr>))"

text \<open>The reduction is handed \<open>n_ext\<close> and reads the opposite scores; both are recorded
  with the event.\<close>

definition score_reduce_step :: "'d sprims \<Rightarrow> 'd sstate \<Rightarrow> error + 'd sstate" where
  "score_reduce_step P s =
     Inr (log_ev (Ev_score_reduce_paired (n_ext s) (opposite_score (dev s)))
           (s\<lparr>dev := p_score_reduce_paired P s\<rparr>))"

definition advance_n_ext :: "'d sstate \<Rightarrow> error + 'd sstate" where
  "advance_n_ext s = Inr (s\<lparr>n_ext := n_ext s + n_hits_per_read s\<rparr>)"

text \<open>Lines 801--954: locate, score the anchor, compact, score the opposite mate, reduce.\<close>

definition score_round :: "'d sprims \<Rightarrow> int32 \<Rightarrow> 'd sstate \<Rightarrow> error + 'd sstate" where
  "score_round P worst_score =
     seq [sort_hi_bits_step P,
          locate_init_step P,
          locate_lookup_step P,
          check_error P ''locating kernel'',
          sort_hi_bits_step P,
          anchor_score_step P,
          check_error P ''score kernel'',
          compact_opposite worst_score,
          fill_opposite_score worst_score,
          when_nz opposite_queue_size (opposite_score_step P),
          check_error P ''opposite-score kernel'',
          score_reduce_step P,
          check_error P ''score-reduce kernel'',
          advance_n_ext]"

text \<open>How one pass through the loop body ends: with an exception, with \<open>break\<close>, or at the
  loop increment (reached by \<open>continue\<close> and by the end of the body).\<close>

datatype 'd outcome = Abort error | Break "'d sstate" | Next_round "'d sstate"

definition extension_round ::
    "'d sprims \<Rightarrow> uint32 \<Rightarrow> int32 \<Rightarrow> Params \<Rightarrow> 'd sstate \<Rightarrow> 'd outcome" where
  "extension_round P BATCH_SIZE worst_score params s =
     (case select_round P BATCH_SIZE params s of
        Inl e \<Rightarrow> Abort e
      | Inr s1 \<Rightarrow>
         if in_size s1 = 0 then Break s1
         else (let s2 = fetch_hits_queue_size P s1 in
               if hits_queue_size s2 = 0 then Next_round s2
               else (case score_round P worst_score s2 of
                       Inl e \<Rightarrow> Abort e
                     | Inr s3 \<Rightarrow> Next_round s3)))"

subsection \<open>The loop\<close>

text \<open>\<open>for (extension_pass = 0; active_read_queues.in_size; ++extension_pass)\<close>. Whether
  the queue ever empties is up to the selection kernel, so the loop carries fuel: \<open>None\<close>
  is a run that needs more rounds than the fuel allows. What comes before the loop (lines
  654--691: sizing and filling the active-read queue, \<open>n_ext = 0\<close>, \<open>select_init\<close>)
  only sets up the state the loop starts in; the loop is modelled from any state.\<close>

fun extension_loop ::
    "nat \<Rightarrow> 'd sprims \<Rightarrow> uint32 \<Rightarrow> int32 \<Rightarrow> Params \<Rightarrow> 'd sstate \<Rightarrow> (error + 'd sstate) option" where
  "extension_loop 0 P BATCH_SIZE worst_score params s =
     (if in_size s = 0 then Some (Inr s) else None)"
| "extension_loop (Suc fuel) P BATCH_SIZE worst_score params s =
     (if in_size s = 0 then Some (Inr s)
      else (case extension_round P BATCH_SIZE worst_score params
                   (log_ev (Ev_round (extension_pass s) (n_ext s) (in_size s)) s) of
              Abort e \<Rightarrow> Some (Inl e)
            | Break s' \<Rightarrow> Some (Inr s')
            | Next_round s' \<Rightarrow>
                extension_loop fuel P BATCH_SIZE worst_score params
                  (s'\<lparr>extension_pass := extension_pass s' + 1\<rparr>)))"

subsection \<open>Reading the event list\<close>

text \<open>The rounds that were started: \<open>(extension_pass, n_ext, in_size)\<close> at the head of
  each.\<close>

fun rounds_of :: "sevent list \<Rightarrow> (uint32 \<times> uint32 \<times> uint32) list" where
  "rounds_of [] = []"
| "rounds_of (Ev_round p n q # es) = (p, n, q) # rounds_of es"
| "rounds_of (e # es) = rounds_of es"

text \<open>The rounds of a whole run of the loop that ends normally.\<close>

definition rounds_run ::
    "nat \<Rightarrow> 'd sprims \<Rightarrow> uint32 \<Rightarrow> int32 \<Rightarrow> Params \<Rightarrow> 'd sstate
       \<Rightarrow> (uint32 \<times> uint32 \<times> uint32) list option" where
  "rounds_run fuel P BATCH_SIZE worst_score params s =
     (case extension_loop fuel P BATCH_SIZE worst_score params s of
        Some (Inr s') \<Rightarrow> Some (rounds_of (trace s'))
      | _ \<Rightarrow> None)"

subsection \<open>The opposite-mate scorer's interface\<close>

text \<open>The hits the opposite-mate scoring kernel works on, as the comment at lines 884--887
  has it: thread \<open>t < opposite_queue_size\<close> addresses hit
  \<open>idx_queue[opposite_queue[t]]\<close>.\<close>

definition opposite_targets :: "'d sstate \<Rightarrow> nat list" where
  "opposite_targets s =
     map (\<lambda>k. unat (idx_queue s ! unat k))
         (take (unat (opposite_queue_size s)) (opposite_queue (dev s)))"

text \<open>Modelled from the spec: the contract of the external opposite-mate scoring kernel
  (score.h), which ``writes one opposite score per compacted entry only; untouched entries
  retain the sentinel pre-fill''. The kernel leaves the length of the opposite-score buffer
  and every entry it does not address as they are.\<close>

definition writes_only_compacted :: "'d sprims \<Rightarrow> bool" where
  "writes_only_compacted P \<longleftrightarrow>
     (\<forall>s. length (opposite_score (p_opposite_score_best P s)) = length (opposite_score (dev s)) \<and>
          (\<forall>h < length (opposite_score (dev s)).
             h \<notin> set (opposite_targets s) \<longrightarrow>
             opposite_score (p_opposite_score_best P s) ! h = opposite_score (dev s) ! h))"

text \<open>The order of a round as the specification words it: the opposite scores are reset
  before the opposite-mate candidates are compacted. The scan carries a flag that says
  whether the reset has happened yet in the current round.\<close>

fun reset_before_compaction :: "bool \<Rightarrow> sevent list \<Rightarrow> bool" where
  "reset_before_compaction filled [] = True"
| "reset_before_compaction filled (Ev_round p n q # es) = reset_before_compaction False es"
| "reset_before_compaction filled (Ev_fill_opposite_score n # es) = reset_before_compaction True es"
| "reset_before_compaction filled (Ev_compact_opposite res # es) =
     (filled \<and> reset_before_compaction filled es)"
| "reset_before_compaction filled (e # es) = reset_before_compaction filled es"

section \<open>The batch driver (\<open>Aligner::best_approx\<close>)\<close>

subsection \<open>State\<close>

datatype mate = MATE_1 | MATE_2

datatype rank = BEST_SCORE | SECOND_BEST_SCORE

text \<open>The two vectors of best alignments: \<open>best_data_dvec\<close> (the pointer
  \<open>best_anchor_ptr\<close>) and \<open>best_data_dvec_o\<close> (\<open>best_opposite_ptr\<close>).\<close>

datatype registry_id = Anchor_data | Opposite_data

text \<open>The selection functors of \<open>nvbio::io\<close> handed to \<open>copy_if\<close>.\<close>

datatype pred_id =
    Is_paired | Is_unpaired | Is_aligned | Has_second | Has_second_paired | Has_second_unpaired

text \<open>The index argument of a finishing kernel: \<open>NULL\<close> (all reads), or a pointer to the
  beginning of \<open>scoring_queues.hits.loc\<close>. For a pointer the model notes the entries the
  kernel will read and which compaction, if any, wrote the queue last.\<close>

datatype idx_arg = Null_idx | Loc_idx "pred_id option" "uint32 list"

datatype kernel =
    Banded_traceback | Opposite_traceback | Finish_alignment | Finish_opposite_alignment

text \<open>A kernel call: the kernel, its template argument (0 for the best, 1 for the
  second-best alignment), the number of reads, the index argument and the vector of best
  alignments it is pointed at.\<close>

datatype call = Call kernel nat uint32 idx_arg registry_id

datatype aevent =
    Ev_seeding_pass uint32 uint32 "uint32 list"
  | Ev_clear_cigar
  | Ev_clear_mds
  | Ev_compact pred_id registry_id "uint32 list"
  | Ev_kernel call
  | Ev_process mate rank registry_id "call list" "call list"

text \<open>The driver's state. The seed queues are kept as the lists of their valid entries
  (\<open>in_size\<close> is the length of \<open>seed_in\<close>). The transcript buffers \<open>cigar\<close> and \<open>mds\<close>
  are kept as the kernel calls made since the buffer was last cleared, which is where any of
  their contents comes from. \<open>loc_src\<close> remembers which compaction wrote \<open>loc\<close> last.
  \<open>n_second_o\<close> is the inner \<open>n_second\<close> of lines 551--556. \<open>hidden\<close> is the rest of
  the device memory.\<close>

record ('b, 'h) astate =
  seed_in :: "uint32 list"
  seed_out :: "uint32 list"
  best_data :: "'b list"
  best_data_o :: "'b list"
  loc :: "uint32 list"
  loc_src :: "pred_id option"
  cigar :: "call list"
  mds :: "call list"
  n_paired :: uint32
  n_unpaired :: uint32
  n_aligned :: uint32
  n_second :: uint32
  n_second_paired :: uint32
  n_second_unpaired :: uint32
  n_second_o :: uint32
  batch_number :: uint32
  hidden :: 'h
  events :: "aevent list"

text \<open>What \<open>best_approx_score\<close> leaves behind for the driver: the reads it queued for
  re-seeding, the two vectors of best alignments, the location queue and the rest.\<close>

record ('b, 'h) score_effect =
  e_seed_out :: "uint32 list"
  e_best_data :: "'b list"
  e_best_data_o :: "'b list"
  e_loc :: "uint32 list"
  e_hidden :: 'h

text \<open>The external parts: \<open>init_alignments\<close> (both calls), the \<open>map\<close> kernel, the
  scoring pipeline \<open>best_approx_score\<close> (whose loop is modelled above; here it is taken by
  its effect, which comes out of the kernels it launches), the finishing kernels, which may
  rewrite the best alignments, the backend fault reported at a \<open>check_error\<close>, and the
  selection functors.\<close>

record ('b, 'h) aprims =
  a_init_alignments :: "('b, 'h) astate \<Rightarrow> 'b list \<times> 'b list"
  a_map :: "uint32 \<Rightarrow> uint32 \<Rightarrow> ('b, 'h) astate \<Rightarrow> 'h"
  a_best_approx_score :: "uint32 \<Rightarrow> uint32 \<Rightarrow> ('b, 'h) astate \<Rightarrow> error + ('b, 'h) score_effect"
  a_kernel :: "call \<Rightarrow> ('b, 'h) astate \<Rightarrow> 'b list \<times> 'b list"
  a_fault :: "string \<Rightarrow> bool"
  a_sat :: "pred_id \<Rightarrow> 'b \<Rightarrow> bool"

definition emit :: "aevent \<Rightarrow> ('b, 'h) astate \<Rightarrow> ('b, 'h) astate" where
  "emit e s = s\<lparr>events := events s @ [e]\<rparr>"

definition a_check_error :: "('b, 'h) aprims \<Rightarrow> string \<Rightarrow> ('b, 'h) astate \<Rightarrow> error + ('b, 'h) astate" where
  "a_check_error P msg s = (if a_fault P msg then Inl (Cuda_error msg) else Inr s)"

subsection \<open>Seeding passes (lines 84--190)\<close>

definition init_alignments_step :: "('b, 'h) aprims \<Rightarrow> ('b, 'h) astate \<Rightarrow> error + ('b, 'h) astate" where
  "init_alignments_step P s =
     (case a_init_alignments P s of (a, b) \<Rightarrow> Inr (s\<lparr>best_data := a, best_data_o := b\<rparr>))"

text \<open>Lines 92--98: \<open>seed_queues.in_size = count\<close> and the input queue is filled with
  \<open>0 .. count-1\<close>.\<close>

definition fill_seed_queue :: "uint32 \<Rightarrow> ('b, 'h) astate \<Rightarrow> error + ('b, 'h) astate" where
  "fill_seed_queue cnt s = Inr (s\<lparr>seed_in := map of_nat [0..<unat cnt]\<rparr>)"

text \<open>Modelled from the spec: \<open>seed_queues.clear_output()\<close> and \<open>seed_queues.swap()\<close> of
  the ping-pong queues (pingpong\_queues.h), ``two index buffers with an explicit current
  role; swapping is a role exchange, not a copy'': clearing empties the output queue,
  swapping exchanges the two queues.\<close>

definition clear_output :: "('b, 'h) astate \<Rightarrow> error + ('b, 'h) astate" where
  "clear_output s = Inr (s\<lparr>seed_out := []\<rparr>)"

definition swap :: "('b, 'h) astate \<Rightarrow> error + ('b, 'h) astate" where
  "swap s = Inr (s\<lparr>seed_in := seed_out s, seed_out := seed_in s\<rparr>)"

definition map_step ::
    "('b, 'h) aprims \<Rightarrow> uint32 \<Rightarrow> uint32 \<Rightarrow> ('b, 'h) astate \<Rightarrow> error + ('b, 'h) astate" where
  "map_step P anchor seeding_pass s = Inr (s\<lparr>hidden := a_map P anchor seeding_pass s\<rparr>)"

definition best_approx_score_step ::
    "('b, 'h) aprims \<Rightarrow> uint32 \<Rightarrow> uint32 \<Rightarrow> ('b, 'h) astate \<Rightarrow> error + ('b, 'h) astate" where
  "best_approx_score_step P anchor seeding_pass s =
     (case a_best_approx_score P anchor seeding_pass s of
        Inl e \<Rightarrow> Inl e
      | Inr r \<Rightarrow> Inr (s\<lparr>seed_out := e_seed_out r, best_data := e_best_data r,
                        best_data_o := e_best_data_o r, loc := e_loc r, loc_src := None,
                        hidden := e_hidden r\<rparr>))"

text \<open>The body of the seeding loop after the test for an empty queue (lines 116--188).\<close>

definition seeding_pass_body ::
    "('b, 'h) aprims \<Rightarrow> uint32 \<Rightarrow> uint32 \<Rightarrow> ('b, 'h) astate \<Rightarrow> error + ('b, 'h) astate" where
  "seeding_pass_body P anchor seeding_pass =
     seq [(\<lambda>s. Inr (emit (Ev_seeding_pass anchor seeding_pass (seed_in s)) s)),
          clear_output,
          map_step P anchor seeding_pass,
          a_check_error P ''mapping kernel'',
          best_approx_score_step P anchor seeding_pass,
          swap]"

text \<open>\<open>for (seeding_pass = 0; seeding_pass < params.max_reseed+1; ++seeding_pass)\<close> with
  the \<open>break\<close> on an empty input queue; the first argument counts the iterations left.\<close>

fun seeding_loop ::
    "('b, 'h) aprims \<Rightarrow> uint32 \<Rightarrow> nat \<Rightarrow> uint32 \<Rightarrow> ('b, 'h) astate \<Rightarrow> error + ('b, 'h) astate" where
  "seeding_loop P anchor 0 seeding_pass s = Inr s"
| "seeding_loop P anchor (Suc k) seeding_pass s =
     (if seed_in s = [] then Inr s
      else (case seeding_pass_body P anchor seeding_pass s of
              Inl e \<Rightarrow> Inl e
            | Inr s' \<Rightarrow> seeding_loop P anchor k (seeding_pass + 1) s'))"

definition anchor_pass ::
    "('b, 'h) aprims \<Rightarrow> Params \<Rightarrow> uint32 \<Rightarrow> uint32 \<Rightarrow> ('b, 'h) astate \<Rightarrow> error + ('b, 'h) astate" where
  "anchor_pass P params cnt anchor =
     seq [fill_seed_queue cnt,
          seeding_loop P anchor (unat (max_reseed params + 1)) 0]"

subsection \<open>Finishing (lines 192--591)\<close>

definition clear_cigar :: "('b, 'h) astate \<Rightarrow> error + ('b, 'h) astate" where
  "clear_cigar s = Inr (emit Ev_clear_cigar (s\<lparr>cigar := []\<rparr>))"

definition clear_mds :: "('b, 'h) astate \<Rightarrow> error + ('b, 'h) astate" where
  "clear_mds s = Inr (emit Ev_clear_mds (s\<lparr>mds := []\<rparr>))"

definition registry :: "registry_id \<Rightarrow> ('b, 'h) astate \<Rightarrow> 'b list" where
  "registry r s = (case r of Anchor_data \<Rightarrow> best_data s | Opposite_data \<Rightarrow> best_data_o s)"

text \<open>A compaction: \<open>copy_if\<close> over \<open>0 .. count-1\<close> with a vector of best alignments as
  the stencil, written to the beginning of \<open>loc\<close>; the number of indices goes to a host
  variable.\<close>

definition compact ::
    "('b, 'h) aprims \<Rightarrow> uint32 \<Rightarrow> pred_id \<Rightarrow> registry_id
       \<Rightarrow> (uint32 \<Rightarrow> ('b, 'h) astate \<Rightarrow> ('b, 'h) astate)
       \<Rightarrow> ('b, 'h) astate \<Rightarrow> error + ('b, 'h) astate" where
  "compact P cnt p r store s =
     (case copy_if cnt (registry r s) (a_sat P p) of
        None \<Rightarrow> Inl (Out_of_bounds ''copy_if stencil'')
      | Some res \<Rightarrow>
         (case write_prefix res (loc s) of
            None \<Rightarrow> Inl (Out_of_bounds ''copy_if result'')
          | Some l \<Rightarrow>
             Inr (emit (Ev_compact p r res)
                   (store (of_nat (length res)) (s\<lparr>loc := l, loc_src := Some p\<rparr>)))))"

text \<open>The index argument a kernel gets when it is handed the beginning of \<open>loc\<close> and a
  number of entries.\<close>

definition loc_idx :: "uint32 \<Rightarrow> ('b, 'h) astate \<Rightarrow> idx_arg" where
  "loc_idx n s = Loc_idx (loc_src s) (take (unat n) (loc s))"

text \<open>Launching a finishing kernel: it may rewrite the best alignments, and whatever it
  writes to the transcript buffers is there until the next clear.\<close>

definition launch ::
    "('b, 'h) aprims \<Rightarrow> (('b, 'h) astate \<Rightarrow> call) \<Rightarrow> ('b, 'h) astate \<Rightarrow> error + ('b, 'h) astate" where
  "launch P mk s =
     (let c = mk s in
      case a_kernel P c s of (a, b) \<Rightarrow>
        Inr (emit (Ev_kernel c)
              (s\<lparr>best_data := a, best_data_o := b, cigar := cigar s @ [c], mds := mds s @ [c]\<rparr>)))"

text \<open>\<open>output_file->process(GPUOutputBatch(count, data, cigar, mds, read_data1), mate,
  rank)\<close>: the batch wraps the transcript buffers as they are at the call.\<close>

definition process :: "mate \<Rightarrow> rank \<Rightarrow> registry_id \<Rightarrow> ('b, 'h) astate \<Rightarrow> error + ('b, 'h) astate" where
  "process m rk r s = Inr (emit (Ev_process m rk r (cigar s) (mds s)) s)"

text \<open>Lines 212--271: the best alignments of the anchor mate.\<close>

definition finish_anchor_best ::
    "('b, 'h) aprims \<Rightarrow> uint32 \<Rightarrow> ('b, 'h) astate \<Rightarrow> error + ('b, 'h) astate" where
  "finish_anchor_best P cnt =
     seq [clear_cigar,
          clear_mds,
          launch P (\<lambda>s. Call Banded_traceback 0 cnt Null_idx Anchor_data),
          a_check_error P ''backtracking kernel'',
          launch P (\<lambda>s. Call Finish_alignment 0 cnt Null_idx Anchor_data),
          a_check_error P ''alignment kernel'',
          process MATE_1 BEST_SCORE Anchor_data]"

text \<open>Lines 273--397: the opposite mates of the best alignments.\<close>

definition finish_opposite_best ::
    "('b, 'h) aprims \<Rightarrow> uint32 \<Rightarrow> ('b, 'h) astate \<Rightarrow> error + ('b, 'h) astate" where
  "finish_opposite_best P cnt =
     seq [clear_cigar,
          clear_mds,
          compact P cnt Is_paired Opposite_data (\<lambda>n s. s\<lparr>n_paired := n\<rparr>),
          when_nz n_paired
            (seq [launch P (\<lambda>s. Call Opposite_traceback 0 (n_paired s)
                                  (loc_idx (n_paired s) s) Opposite_data),
                  a_check_error P ''paired opposite backtracking kernel'']),
          compact P cnt Is_unpaired Opposite_data (\<lambda>n s. s\<lparr>n_unpaired := n\<rparr>),
          when_nz n_unpaired
            (seq [launch P (\<lambda>s. Call Banded_traceback 0 (n_unpaired s)
                                  (loc_idx (n_unpaired s) s) Opposite_data),
                  a_check_error P ''unpaired opposite backtracking kernel'']),
          compact P cnt Is_aligned Opposite_data (\<lambda>n s. s\<lparr>n_aligned := n\<rparr>),
          when_nz n_aligned
            (seq [launch P (\<lambda>s. Call Finish_opposite_alignment 0 (n_aligned s)
                                  (loc_idx (n_aligned s) s) Opposite_data),
                  a_check_error P ''opposite alignment kernel'']),
          process MATE_2 BEST_SCORE Opposite_data]"

text \<open>Lines 399--473: the second-best alignments of the anchor mate. The compaction comes
  first; the clearing of the transcript buffers is inside \<open>if (n_second)\<close>, the call of
  \<open>process\<close> after it.\<close>

definition finish_anchor_second ::
    "('b, 'h) aprims \<Rightarrow> uint32 \<Rightarrow> ('b, 'h) astate \<Rightarrow> error + ('b, 'h) astate" where
  "finish_anchor_second P cnt =
     seq [compact P cnt Has_second Anchor_data (\<lambda>n s. s\<lparr>n_second := n\<rparr>),
          when_nz n_second
            (seq [clear_cigar,
                  clear_mds,
                  launch P (\<lambda>s. Call Banded_traceback 1 (n_second s)
                                  (loc_idx (n_second s) s) Anchor_data),
                  a_check_error P ''second-best backtracking kernel'',
                  launch P (\<lambda>s. Call Finish_alignment 1 (n_second s)
                                  (loc_idx (n_second s) s) Anchor_data),
                  a_check_error P ''second-best alignment kernel'']),
          process MATE_1 SECOND_BEST_SCORE Anchor_data]"

text \<open>Lines 475--591: the opposite mates of the second-best alignments.\<close>

definition finish_opposite_second ::
    "('b, 'h) aprims \<Rightarrow> uint32 \<Rightarrow> ('b, 'h) astate \<Rightarrow> error + ('b, 'h) astate" where
  "finish_opposite_second P cnt =
     seq [clear_cigar,
          clear_mds,
          compact P cnt Has_second_paired Opposite_data (\<lambda>n s. s\<lparr>n_second_paired := n\<rparr>),
          when_nz n_second_paired
            (seq [launch P (\<lambda>s. Call Opposite_traceback 1 (n_second_paired s)
                                  (loc_idx (n_second_paired s) s) Opposite_data),
                  a_check_error P ''second-best paired opposite backtracking kernel'']),
          compact P cnt Has_second_unpaired Opposite_data (\<lambda>n s. s\<lparr>n_second_unpaired := n\<rparr>),
          when_nz n_second_unpaired
            (seq [launch P (\<lambda>s. Call Banded_traceback 1 (n_second_unpaired s)
                                  (loc_idx (n_second_unpaired s) s) Opposite_data),
                  a_check_error P ''second-best unpaired opposite backtracking kernel'']),
          compact P cnt Has_second Opposite_data (\<lambda>n s. s\<lparr>n_second_o := n\<rparr>),
          when_nz n_second_o
            (seq [launch P (\<lambda>s. Call Finish_opposite_alignment 1 (n_second_o s)
                                  (loc_idx (n_second_o s) s) Opposite_data),
                  a_check_error P ''second-best opposite alignment kernel'']),
          process MATE_2 SECOND_BEST_SCORE Opposite_data]"

definition finish :: "('b, 'h) aprims \<Rightarrow> uint32 \<Rightarrow> ('b, 'h) astate \<Rightarrow> error + ('b, 'h) astate" where
  "finish P cnt =
     seq [finish_anchor_best P cnt,
          finish_opposite_best P cnt,
          finish_anchor_second P cnt,
          finish_opposite_second P cnt]"

subsection \<open>The whole batch\<close>

definition best_approx ::
    "('b, 'h) aprims \<Rightarrow> Params \<Rightarrow> uint32 \<Rightarrow> ('b, 'h) astate \<Rightarrow> error + ('b, 'h) astate" where
  "best_approx P params cnt =
     seq [init_alignments_step P,
          anchor_pass P params cnt 0,
          anchor_pass P params cnt 1,
          finish P cnt,
          (\<lambda>s. Inr (s\<lparr>batch_number := batch_number s + 1\<rparr>))]"

subsection \<open>Reading the event list\<close>


text \<open>The backtracking calls.\<close>

fun tracebacks :: "aevent list \<Rightarrow> call list" where
  "tracebacks [] = []"
| "tracebacks (Ev_kernel (Call Banded_traceback k n i r) # es) =
     Call Banded_traceback k n i r # tracebacks es"
| "tracebacks (Ev_kernel (Call Opposite_traceback k n i r) # es) =
     Call Opposite_traceback k n i r # tracebacks es"
| "tracebacks (e # es) = tracebacks es"

text \<open>The active reads at the head of each seeding pass of one anchor.\<close>

fun seed_queues_of :: "uint32 \<Rightarrow> aevent list \<Rightarrow> uint32 list list" where
  "seed_queues_of anchor [] = []"
| "seed_queues_of anchor (Ev_seeding_pass a p q # es) =
     (if a = anchor then q # seed_queues_of anchor es else seed_queues_of anchor es)"
| "seed_queues_of anchor (e # es) = seed_queues_of anchor es"




text \<open>The stage a transcript belongs to, in the words of the specification: one stage for
  each mate and rank. A call works for mate 1 when it is pointed at the anchor's best
  alignments and for mate 2 when pointed at the opposite ones, and for the best rank when
  its template argument is 0. An emitted batch is from its own stage when every call that
  wrote to the buffers it wraps works for the batch's mate and rank.\<close>

fun own_stage :: "mate \<Rightarrow> rank \<Rightarrow> call \<Rightarrow> bool" where
  "own_stage m rk (Call k t n i r) =
     ((m = MATE_1 \<longleftrightarrow> r = Anchor_data) \<and> (rk = BEST_SCORE \<longleftrightarrow> t = 0))"

fun batches_from_own_stage :: "aevent list \<Rightarrow> bool" where
  "batches_from_own_stage [] = True"
| "batches_from_own_stage (Ev_process m rk r cg md # es) =
     (list_all (own_stage m rk) cg \<and> list_all (own_stage m rk) md \<and> batches_from_own_stage es)"
| "batches_from_own_stage (e # es) = batches_from_own_stage es"

text \<open>The emitted batches with the transcript buffers they wrap.\<close>

fun batches :: "aevent list \<Rightarrow> (mate \<times> rank \<times> call list \<times> call list) list" where
  "batches [] = []"
| "batches (Ev_process m rk r cg md # es) = (m, rk, cg, md) # batches es"
| "batches (e # es) = batches es"

text \<open>Modelled from the spec: what the external scoring pipeline leaves in the output seed
  queue, ``a subset of the input -- reads whose search and extension did not yet satisfy
  stopping criteria'': the reads queued for re-seeding are among the reads of the input
  queue, each at most as often as it is there.\<close>

definition reseeds_subset :: "('b, 'h) aprims \<Rightarrow> bool" where
  "reseeds_subset P \<longleftrightarrow>
     (\<forall>anchor seeding_pass s r.
        a_best_approx_score P anchor seeding_pass s = Inr r \<longrightarrow>
        mset (e_seed_out r) \<subseteq># mset (seed_in s))"

text \<open>A step keeps an observation \<open>g\<close> of the state when every successful run of it
  leaves \<open>g\<close> as it was.\<close>

definition keeps :: "('s \<Rightarrow> 'x) \<Rightarrow> ('s \<Rightarrow> error + 's) \<Rightarrow> bool" where
  "keeps g f \<longleftrightarrow> (\<forall>a b. f a = Inr b \<longrightarrow> g b = g a)"

subsection \<open>The best-alignments record and its selection functors\<close>

text \<open>The indices below \<open>cnt\<close> whose entry satisfies a predicate, in increasing order:
  what \<open>copy_if\<close> yields when the stencil is long enough.\<close>

definition index_filter :: "uint32 \<Rightarrow> ('a \<Rightarrow> bool) \<Rightarrow> 'a list \<Rightarrow> uint32 list" where
  "index_filter cnt pred stencil = map of_nat (filter (\<lambda>i. pred (stencil ! i)) [0..<unat cnt])"

text \<open>The compactions of a run, with the functor, the stencil and the result.\<close>

fun compactions :: "aevent list \<Rightarrow> (pred_id \<times> registry_id \<times> uint32 list) list" where
  "compactions [] = []"
| "compactions (Ev_compact p r res # es) = (p, r, res) # compactions es"
| "compactions (e # es) = compactions es"

text \<open>Modelled from the spec: \<open>io::BestAlignments\<close> and the functors \<open>io::is_paired\<close>,
  \<open>io::is_unpaired\<close>, \<open>io::is_aligned\<close>, \<open>io::has_second\<close>, \<open>io::has_second_paired\<close>,
  \<open>io::has_second_unpaired\<close> (nvbio/io, not in this file). The record has ``two ranked
  slots (best, second-best), each holding a score, a genome location, and pairing-outcome
  flags (paired / unpaired / unaligned)''; an empty slot is the unaligned one. \<open>is_paired\<close>:
  the best alignment is genuinely paired; \<open>is_unpaired\<close>: it aligned independently;
  \<open>is_aligned\<close>: it produced any alignment at all (paired or unpaired); \<open>has_second\<close>: a
  second-best alignment exists; \<open>has_second_paired\<close> and \<open>has_second_unpaired\<close>: the same
  pairing split for the second-best rank.\<close>

datatype pairing = Paired | Unpaired | Unaligned

record Alignment =
  al_score :: int32
  al_location :: uint32
  al_pairing :: pairing

record BestAlignments =
  best_al :: Alignment
  second_al :: Alignment

definition pairing_of :: "BestAlignments \<Rightarrow> pairing \<times> pairing" where
  "pairing_of b = (al_pairing (best_al b), al_pairing (second_al b))"

fun pairing_sat :: "pred_id \<Rightarrow> pairing \<times> pairing \<Rightarrow> bool" where
  "pairing_sat Is_paired (b, s) = (b = Paired)"
| "pairing_sat Is_unpaired (b, s) = (b = Unpaired)"
| "pairing_sat Is_aligned (b, s) = (b = Paired \<or> b = Unpaired)"
| "pairing_sat Has_second (b, s) = (s = Paired \<or> s = Unpaired)"
| "pairing_sat Has_second_paired (b, s) = (s = Paired)"
| "pairing_sat Has_second_unpaired (b, s) = (s = Unpaired)"

definition selection_functor :: "pred_id \<Rightarrow> BestAlignments \<Rightarrow> bool" where
  "selection_functor p b = pairing_sat p (pairing_of b)"

text \<open>Modelled from the spec: the finishing kernels (traceback.h) and the best alignments.
  ``Once all seeding passes for both anchors complete, the Registry is read-only''; the
  kernels write transcripts and finished-alignment data, never the pairing outcome of a
  slot.\<close>

definition kernels_keep_pairing :: "(BestAlignments, 'h) aprims \<Rightarrow> bool" where
  "kernels_keep_pairing P \<longleftrightarrow>
     (\<forall>c s a b. a_kernel P c s = (a, b) \<longrightarrow>
        map pairing_of a = map pairing_of (best_data s) \<and>
        map pairing_of b = map pairing_of (best_data_o s))"

section \<open>Concrete instances\<close>

text \<open>A stand-in for the kernels, used to run the drivers on concrete inputs. The opaque
  device component is a counter: every swap of the active-read queues keeps the queue as
  it is and counts down, and reports an empty queue once the counter is 0. The index sort
  yields the identity order; no kernel touches the score buffers; the opposite-mate scorer
  writes the score 7 at every hit the compacted queue points to; no backend fault.\<close>

definition countdown_prims :: "nat sprims" where
  "countdown_prims =
     \<lparr>p_clear_output = dev,
      p_setup = dev,
      p_select = dev,
      p_swap = (\<lambda>s. if opaque (dev s) = 0 then (0, dev s)
                      else (in_size s, (dev s)\<lparr>opaque := opaque (dev s) - 1\<rparr>)),
      p_hits_count = (\<lambda>d. 0),
      p_sort_hi_bits = (\<lambda>s. (map of_nat [0..<unat (hits_queue_size s)], dev s)),
      p_locate_init = dev,
      p_locate_lookup = dev,
      p_anchor_score_best = dev,
      p_opposite_score_best =
        (\<lambda>s. (dev s)\<lparr>opposite_score :=
                 map (\<lambda>h. if h \<in> set (opposite_targets s) then 7 else opposite_score (dev s) ! h)
                     [0..<length (opposite_score (dev s))]\<rparr>),
      p_score_reduce_paired = dev,
      p_check_error = (\<lambda>msg d. False)\<rparr>"

text \<open>A loop state at the head of the loop: \<open>q\<close> active reads, \<open>n\<close> extensions so far.\<close>

definition loop_state :: "uint32 \<Rightarrow> uint32 \<Rightarrow> 'd device \<Rightarrow> 'd sstate" where
  "loop_state q n d =
     \<lparr>in_size = q, n_hits_per_read = 0, hits_queue_size = 0, idx_queue = [],
      opposite_queue_size = 0, n_ext = n, extension_pass = 0, dev = d, trace = []\<rparr>"

text \<open>Device memory with room for four hits: anchor scores, stale opposite scores and a
  stale opposite queue, with \<open>-1\<close> standing for the worst score.\<close>

definition device4 :: "nat \<Rightarrow> nat device" where
  "device4 c = \<lparr>opaque = c, score = [5, -1, 6, -1], opposite_score = [1, 2, 3, 4],
               opposite_queue = [9, 9, 9, 9]\<rparr>"

text \<open>A stand-in for the external parts of the batch driver. A best-alignments entry is
  the list of selection functors it satisfies. The kernels leave the best alignments as
  they find them, so the vectors of the initial state are the outcome of the search; every
  seeding pass re-seeds all reads of the input queue but the first; no backend fault.\<close>

definition flag_prims :: "(pred_id list, unit) aprims" where
  "flag_prims =
     \<lparr>a_init_alignments = (\<lambda>s. (best_data s, best_data_o s)),
      a_map = (\<lambda>anchor seeding_pass s. ()),
      a_best_approx_score =
        (\<lambda>anchor seeding_pass s.
           Inr \<lparr>e_seed_out = tl (seed_in s), e_best_data = best_data s,
                e_best_data_o = best_data_o s, e_loc = loc s, e_hidden = ()\<rparr>),
      a_kernel = (\<lambda>c s. (best_data s, best_data_o s)),
      a_fault = (\<lambda>msg. False),
      a_sat = (\<lambda>p b. p \<in> set b)\<rparr>"

text \<open>A batch before the driver runs, with the best alignments the search will have found
  for the anchor and for the opposite mates, and a location queue of four entries.\<close>

definition batch_state :: "'b list \<Rightarrow> 'b list \<Rightarrow> ('b, unit) astate" where
  "batch_state a b =
     \<lparr>seed_in = [], seed_out = [], best_data = a, best_data_o = b,
      loc = [0, 0, 0, 0], loc_src = None, cigar = [], mds = [],
      n_paired = 0, n_unpaired = 0, n_aligned = 0, n_second = 0, n_second_paired = 0,
      n_second_unpaired = 0, n_second_o = 0, batch_number = 0, hidden = (), events = []\<rparr>"

text \<open>The same stand-in over best-alignments records: the functors are those of the
  record, and the finishing kernels stamp the score of the best slot and leave the pairing
  outcomes alone.\<close>

definition record_prims :: "(BestAlignments, unit) aprims" where
  "record_prims =
     \<lparr>a_init_alignments = (\<lambda>s. (best_data s, best_data_o s)),
      a_map = (\<lambda>anchor seeding_pass s. ()),
      a_best_approx_score =
        (\<lambda>anchor seeding_pass s.
           Inr \<lparr>e_seed_out = tl (seed_in s), e_best_data = best_data s,
                e_best_data_o = best_data_o s, e_loc = loc s, e_hidden = ()\<rparr>),
      a_kernel = (\<lambda>c s. (map (\<lambda>b. b\<lparr>best_al := (best_al b)\<lparr>al_score := 0\<rparr>\<rparr>) (best_data s),
                          map (\<lambda>b. b\<lparr>best_al := (best_al b)\<lparr>al_score := 0\<rparr>\<rparr>) (best_data_o s))),
      a_fault = (\<lambda>msg. False),
      a_sat = selection_functor\<rparr>"

definition alignments :: "pairing \<Rightarrow> pairing \<Rightarrow> BestAlignments" where
  "alignments b s =
     \<lparr>best_al = \<lparr>al_score = 10, al_location = 100, al_pairing = b\<rparr>,
      second_al = \<lparr>al_score = 5, al_location = 200, al_pairing = s\<rparr>\<rparr>"

section \<open>Properties of the extension and scoring loop\<close>

subsection \<open>Sequencing\<close>

lemma seq_Inr_Cons:
  "seq (f # fs) s = Inr s' \<longleftrightarrow> (\<exists>s1. f s = Inr s1 \<and> seq fs s1 = Inr s')"
  by (auto split: sum.splits)

subsection \<open>Adaptive batching\<close>

lemma unat_min_word: "unat (min (a::'a::len word) b) = min (unat a) (unat b)"
  by (simp add: min_def word_le_nat_alt)

lemma select_round_n_hits:
  assumes "select_round P C params s = Inr s'"
  shows "n_hits_per_read s' = hits_per_read C params (n_ext s) (in_size s)"
  using assms
  by (auto simp: select_round_def seq_Inr_Cons clear_output_step_def choose_hits_per_read_def
      setup_step_def select_step_def check_error_def swap_step_def log_ev_def
      split: if_splits prod.splits)

lemma select_round_countdown:
  "q \<noteq> 0 \<Longrightarrow>
   select_round countdown_prims C params (loop_state q n (device4 c)) =
     Inr ((loop_state q n (device4 c))
            \<lparr>in_size := (if c = 0 then 0 else q),
             n_hits_per_read := hits_per_read C params n q,
             dev := device4 (c - 1),
             trace := [Ev_clear_output, Ev_setup (hits_per_read C params n q) q,
                       Ev_select, Ev_swap]\<rparr>)"
  by (simp add: select_round_def countdown_prims_def loop_state_def device4_def
      clear_output_step_def choose_hits_per_read_def setup_step_def select_step_def
      check_error_def swap_step_def log_ev_def)

text \<open>
  \<^bold>\<open>C1.\<close> In every extension round, with \<open>Q\<close> the size of the active-read queue at the
  head of the round and \<open>C = BATCH_SIZE\<close>: if \<open>Q > C/2\<close> the round selects one hit per
  read; if \<open>Q \<le> C/2\<close> it selects \<open>min (C/Q) (min 4096 (max_ext - n_ext))\<close> hits per read.
  The arithmetic is that of \<open>uint32\<close>; the difference \<open>max_ext - n_ext\<close> is the plain
  difference of the two numbers whenever \<open>n_ext \<le> max_ext\<close>.
\<close>

theorem adaptive_batching_policy:
  assumes "select_round P BATCH_SIZE params s = Inr s'"
  shows "(unat BATCH_SIZE div 2 < unat (in_size s) \<longrightarrow> n_hits_per_read s' = 1) \<and>
         (unat (in_size s) \<le> unat BATCH_SIZE div 2 \<longrightarrow>
            n_hits_per_read s' =
              min (BATCH_SIZE div in_size s) (min 4096 (max_ext params - n_ext s)) \<and>
            unat (n_hits_per_read s') =
              min (unat BATCH_SIZE div unat (in_size s))
                  (min 4096 (unat (max_ext params - n_ext s)))) \<and>
         (n_ext s \<le> max_ext params \<longrightarrow>
            unat (max_ext params - n_ext s) = unat (max_ext params) - unat (n_ext s))"
proof -
  have h: "n_hits_per_read s' = hits_per_read BATCH_SIZE params (n_ext s) (in_size s)"
    using assms by (rule select_round_n_hits)
  have le: "in_size s \<le> BATCH_SIZE div 2 \<longleftrightarrow> unat (in_size s) \<le> unat BATCH_SIZE div 2"
    by (simp add: word_le_nat_alt unat_div)
  show ?thesis
    using le by (auto simp: h hits_per_read_def Let_def unat_sub unat_min_word unat_div)
qed

text \<open>The example of the specification (\<open>C = 1024\<close>, \<open>Q = 100\<close>, \<open>max_ext - n_ext = 3\<close>
  gives 3), and a round above half the capacity (\<open>Q = 600\<close> gives 1).\<close>

theorem adaptive_batching_policy_witness:
  "select_round countdown_prims 1024 \<lparr>max_reseed = 0, max_ext = 5\<rparr> (loop_state 100 2 (device4 2))
     = Inr (projr (select_round countdown_prims 1024 \<lparr>max_reseed = 0, max_ext = 5\<rparr>
                     (loop_state 100 2 (device4 2)))) \<and>
   n_hits_per_read (projr (select_round countdown_prims 1024 \<lparr>max_reseed = 0, max_ext = 5\<rparr>
                     (loop_state 100 2 (device4 2)))) = 3 \<and>
   select_round countdown_prims 1024 \<lparr>max_reseed = 0, max_ext = 5\<rparr> (loop_state 600 2 (device4 2))
     = Inr (projr (select_round countdown_prims 1024 \<lparr>max_reseed = 0, max_ext = 5\<rparr>
                     (loop_state 600 2 (device4 2)))) \<and>
   n_hits_per_read (projr (select_round countdown_prims 1024 \<lparr>max_reseed = 0, max_ext = 5\<rparr>
                     (loop_state 600 2 (device4 2)))) = 1"
proof -
  let ?pr = "\<lparr>max_reseed = 0, max_ext = 5\<rparr>"
  let ?a = "loop_state 100 2 (device4 2)" and ?b = "loop_state 600 2 (device4 2)"
  have a: "select_round countdown_prims 1024 ?pr ?a
             = Inr (projr (select_round countdown_prims 1024 ?pr ?a))"
   and b: "select_round countdown_prims 1024 ?pr ?b
             = Inr (projr (select_round countdown_prims 1024 ?pr ?b))"
    by (simp_all add: select_round_countdown)
  have qa: "in_size ?a = 100" "n_ext ?a = 2" and qb: "in_size ?b = 600" "n_ext ?b = 2"
    by (simp_all add: loop_state_def)
  from adaptive_batching_policy [OF a] have "n_hits_per_read (projr (select_round countdown_prims 1024 ?pr ?a)) = 3"
    by (simp add: qa)
  moreover from adaptive_batching_policy [OF b] have "n_hits_per_read (projr (select_round countdown_prims 1024 ?pr ?b)) = 1"
    by (simp add: qb)
  ultimately show ?thesis using a b by simp
qed

lemma two_le_div_half32:
  fixes b :: uint32
  assumes "b div 2 \<noteq> 0"
  shows "2 \<le> b div (b div 2)"
proof -
  have q: "0 < unat b div 2"
    using assms by (simp add: word_eq_iff_unsigned [where 'a=nat] unat_div)
  have "2 * (unat b div 2) \<le> unat b" by simp
  then have "2 \<le> unat b div (unat b div 2)"
    using q by (simp add: less_eq_div_iff_mult_less_eq)
  then show ?thesis by (simp add: word_le_nat_alt unat_div)
qed

text \<open>
  \<^bold>\<open>C2\<close>, as stated, fails: with \<open>C = 1024\<close> and exactly \<open>Q = 512 = C/2\<close> active reads
  (and 400 extensions left) the round selects two hits per read, not one. The test in the
  code is \<open>in_size <= BATCH_SIZE/2\<close>, so the boundary belongs to the multi-hit branch.
\<close>

theorem boundary_single_hit_counterexample:
  "(512 :: uint32) = 1024 div 2 \<and>
   select_round countdown_prims 1024 \<lparr>max_reseed = 0, max_ext = 400\<rparr> (loop_state 512 0 (device4 2))
     = Inr (projr (select_round countdown_prims 1024 \<lparr>max_reseed = 0, max_ext = 400\<rparr>
                     (loop_state 512 0 (device4 2)))) \<and>
   n_hits_per_read (projr (select_round countdown_prims 1024 \<lparr>max_reseed = 0, max_ext = 400\<rparr>
                     (loop_state 512 0 (device4 2)))) = 2 \<and>
   (2 :: uint32) \<noteq> 1"
  by (simp add: select_round_countdown hits_per_read_def)

text \<open>
  \<^bold>\<open>C2\<close>, amended. When the number of active reads is exactly \<open>C/2\<close> (and not zero), the
  round takes the multi-hit branch: it selects \<open>min (C/Q) (min 4096 (max_ext - n_ext))\<close>
  hits per read, where \<open>C/Q \<ge> 2\<close>; so it selects one hit per read only when
  \<open>max_ext - n_ext\<close> is 1.
\<close>

theorem boundary_multi_hit:
  assumes "select_round P BATCH_SIZE params s = Inr s'"
      and "in_size s = BATCH_SIZE div 2" and "in_size s \<noteq> 0"
  shows "n_hits_per_read s' =
           min (BATCH_SIZE div in_size s) (min 4096 (max_ext params - n_ext s)) \<and>
         2 \<le> BATCH_SIZE div in_size s \<and>
         (n_hits_per_read s' = 1 \<longleftrightarrow> max_ext params - n_ext s = 1)"
proof -
  have h: "n_hits_per_read s' = hits_per_read BATCH_SIZE params (n_ext s) (in_size s)"
    using assms(1) by (rule select_round_n_hits)
  have two: "2 \<le> BATCH_SIZE div in_size s"
    using assms(2,3) two_le_div_half32 [of BATCH_SIZE] by simp
  have eq: "n_hits_per_read s' =
           min (BATCH_SIZE div in_size s) (min 4096 (max_ext params - n_ext s))"
    using assms(2) by (simp add: h hits_per_read_def)
  have "(min (BATCH_SIZE div in_size s) (min 4096 (max_ext params - n_ext s)) = 1)
        \<longleftrightarrow> max_ext params - n_ext s = 1"
    using two by (auto simp: min_def word_le_nat_alt word_eq_iff_unsigned [where 'a=nat])
  with eq two show ?thesis by simp
qed

theorem boundary_multi_hit_witness:
  "select_round countdown_prims 1024 \<lparr>max_reseed = 0, max_ext = 400\<rparr> (loop_state 512 0 (device4 2))
     = Inr (projr (select_round countdown_prims 1024 \<lparr>max_reseed = 0, max_ext = 400\<rparr>
                     (loop_state 512 0 (device4 2)))) \<and>
   in_size (loop_state 512 0 (device4 2) :: nat sstate) = 1024 div 2 \<and>
   in_size (loop_state 512 0 (device4 2) :: nat sstate) \<noteq> 0 \<and>
   n_hits_per_read (projr (select_round countdown_prims 1024 \<lparr>max_reseed = 0, max_ext = 400\<rparr>
                     (loop_state 512 0 (device4 2)))) = min (1024 div 512) (min 4096 (400 - 0))"
proof -
  let ?pr = "\<lparr>max_reseed = 0, max_ext = 400\<rparr>"
  let ?a = "loop_state 512 0 (device4 2)"
  have a: "select_round countdown_prims 1024 ?pr ?a
             = Inr (projr (select_round countdown_prims 1024 ?pr ?a))"
    by (simp add: select_round_countdown)
  have q: "in_size ?a = 1024 div 2" "in_size ?a \<noteq> 0" "in_size ?a = 512" "n_ext ?a = 0"
    by (simp_all add: loop_state_def)
  from boundary_multi_hit [OF a q(1) q(2)] show ?thesis
    using a q by simp
qed

subsection \<open>The size of the hit queue\<close>

lemma steps_hits_count_irrelevant:
  "clear_output_step (P\<lparr>p_hits_count := f\<rparr>) = clear_output_step P"
  "setup_step (P\<lparr>p_hits_count := f\<rparr>) = setup_step P"
  "select_step (P\<lparr>p_hits_count := f\<rparr>) = select_step P"
  "swap_step (P\<lparr>p_hits_count := f\<rparr>) = swap_step P"
  "check_error (P\<lparr>p_hits_count := f\<rparr>) = check_error P"
  "sort_hi_bits_step (P\<lparr>p_hits_count := f\<rparr>) = sort_hi_bits_step P"
  "locate_init_step (P\<lparr>p_hits_count := f\<rparr>) = locate_init_step P"
  "locate_lookup_step (P\<lparr>p_hits_count := f\<rparr>) = locate_lookup_step P"
  "anchor_score_step (P\<lparr>p_hits_count := f\<rparr>) = anchor_score_step P"
  "opposite_score_step (P\<lparr>p_hits_count := f\<rparr>) = opposite_score_step P"
  "score_reduce_step (P\<lparr>p_hits_count := f\<rparr>) = score_reduce_step P"
  by (simp_all add: clear_output_step_def setup_step_def select_step_def swap_step_def
      check_error_def sort_hi_bits_step_def locate_init_step_def locate_lookup_step_def
      anchor_score_step_def opposite_score_step_def score_reduce_step_def fun_eq_iff)

lemma select_round_hits_count_irrelevant:
  "select_round (P\<lparr>p_hits_count := f\<rparr>) C params = select_round P C params"
  by (simp only: select_round_def steps_hits_count_irrelevant)

lemma score_round_hits_count_irrelevant:
  "score_round (P\<lparr>p_hits_count := f\<rparr>) w = score_round P w"
  by (simp only: score_round_def steps_hits_count_irrelevant)

text \<open>
  \<^bold>\<open>C10.\<close> In a round that selects one hit per read, the size of the hit queue is set to
  the size of the active-read queue after the swap, and the device-side counter
  \<open>hits_count\<close> is not read: whatever the counter holds, the result is the same. A round
  whose course depends on the counter selects more than one hit per read.
\<close>

theorem single_hit_queue_size:
  "(hits_per_read BATCH_SIZE params (n_ext s) (in_size s) = 1 \<longrightarrow>
      (\<forall>s1. select_round P BATCH_SIZE params s = Inr s1 \<longrightarrow>
         hits_queue_size (fetch_hits_queue_size P s1) = in_size s1 \<and>
         fetch_hits_queue_size (P\<lparr>p_hits_count := f\<rparr>) s1 = fetch_hits_queue_size P s1)) \<and>
   (extension_round (P\<lparr>p_hits_count := f\<rparr>) BATCH_SIZE worst_score params s
      \<noteq> extension_round P BATCH_SIZE worst_score params s \<longrightarrow>
    1 < hits_per_read BATCH_SIZE params (n_ext s) (in_size s))"
proof (intro conjI impI allI)
  fix s1 assume one: "hits_per_read BATCH_SIZE params (n_ext s) (in_size s) = 1"
    and sel: "select_round P BATCH_SIZE params s = Inr s1"
  from sel have "n_hits_per_read s1 = 1" using one by (simp add: select_round_n_hits)
  then show "hits_queue_size (fetch_hits_queue_size P s1) = in_size s1"
    and "fetch_hits_queue_size (P\<lparr>p_hits_count := f\<rparr>) s1 = fetch_hits_queue_size P s1"
    by (simp_all add: fetch_hits_queue_size_def)
next
  assume neq: "extension_round (P\<lparr>p_hits_count := f\<rparr>) BATCH_SIZE worst_score params s
      \<noteq> extension_round P BATCH_SIZE worst_score params s"
  show "1 < hits_per_read BATCH_SIZE params (n_ext s) (in_size s)"
  proof (rule ccontr)
    assume n: "\<not> 1 < hits_per_read BATCH_SIZE params (n_ext s) (in_size s)"
    have "\<And>s1. select_round P BATCH_SIZE params s = Inr s1 \<Longrightarrow>
        fetch_hits_queue_size (P\<lparr>p_hits_count := f\<rparr>) s1 = fetch_hits_queue_size P s1"
      using n by (simp add: fetch_hits_queue_size_def select_round_n_hits)
    then have "extension_round (P\<lparr>p_hits_count := f\<rparr>) BATCH_SIZE worst_score params s
      = extension_round P BATCH_SIZE worst_score params s"
      by (simp add: extension_round_def select_round_hits_count_irrelevant
          score_round_hits_count_irrelevant Let_def split: sum.splits)
    with neq show False by simp
  qed
qed

theorem single_hit_queue_size_witness:
  "hits_per_read 1024 \<lparr>max_reseed = 0, max_ext = 5\<rparr> (n_ext (loop_state 600 2 (device4 2)))
      (in_size (loop_state 600 2 (device4 2))) = 1 \<and>
   select_round countdown_prims 1024 \<lparr>max_reseed = 0, max_ext = 5\<rparr> (loop_state 600 2 (device4 2))
     = Inr (projr (select_round countdown_prims 1024 \<lparr>max_reseed = 0, max_ext = 5\<rparr>
                     (loop_state 600 2 (device4 2)))) \<and>
   hits_queue_size (fetch_hits_queue_size countdown_prims
       (projr (select_round countdown_prims 1024 \<lparr>max_reseed = 0, max_ext = 5\<rparr>
                (loop_state 600 2 (device4 2)))))
     = in_size (projr (select_round countdown_prims 1024 \<lparr>max_reseed = 0, max_ext = 5\<rparr>
                (loop_state 600 2 (device4 2)))) \<and>
   extension_round (countdown_prims\<lparr>p_hits_count := (\<lambda>d. 4)\<rparr>) 1024 (-1)
       \<lparr>max_reseed = 0, max_ext = 5\<rparr> (loop_state 4 2 (device4 2))
     \<noteq> extension_round countdown_prims 1024 (-1)
       \<lparr>max_reseed = 0, max_ext = 5\<rparr> (loop_state 4 2 (device4 2)) \<and>
   1 < hits_per_read 1024 \<lparr>max_reseed = 0, max_ext = 5\<rparr> (n_ext (loop_state 4 2 (device4 2)))
      (in_size (loop_state 4 2 (device4 2)))"
proof -
  let ?pr = "\<lparr>max_reseed = 0, max_ext = 5\<rparr>"
  let ?a = "loop_state 600 2 (device4 2)" and ?b = "loop_state 4 2 (device4 2)"
  have one: "hits_per_read 1024 ?pr (n_ext ?a) (in_size ?a) = 1"
    by (simp add: loop_state_def hits_per_read_def)
  have sel: "select_round countdown_prims 1024 ?pr ?a
       = Inr (projr (select_round countdown_prims 1024 ?pr ?a))"
    by (simp add: select_round_countdown)
  have neq: "extension_round (countdown_prims\<lparr>p_hits_count := (\<lambda>d. 4)\<rparr>) 1024 (-1) ?pr ?b
     \<noteq> extension_round countdown_prims 1024 (-1) ?pr ?b"
    by code_simp
  from single_hit_queue_size [of 1024 ?pr ?a countdown_prims "\<lambda>d. 4" "-1"] one sel
  have "hits_queue_size (fetch_hits_queue_size countdown_prims
           (projr (select_round countdown_prims 1024 ?pr ?a)))
         = in_size (projr (select_round countdown_prims 1024 ?pr ?a))"
    by blast
  moreover from single_hit_queue_size [of 1024 ?pr ?b countdown_prims "\<lambda>d. 4" "-1"] neq
  have "1 < hits_per_read 1024 ?pr (n_ext ?b) (in_size ?b)"
    by blast
  ultimately show ?thesis using one sel neq by blast
qed

subsection \<open>The rounds of the loop\<close>

text \<open>Fuel only bounds the number of rounds: a run that ends within some fuel ends the
  same way with any more.\<close>

lemma extension_loop_more_fuel:
  assumes "extension_loop fuel P BATCH_SIZE worst_score params s = Some r"
  shows "extension_loop (fuel + k) P BATCH_SIZE worst_score params s = Some r"
  using assms
proof (induction fuel arbitrary: s)
  case 0
  then show ?case by (cases k) (auto split: if_splits)
next
  case (Suc fuel)
  then show ?case
    by (auto split: if_splits outcome.splits)
qed

lemma seq_keeps:
  assumes "seq fs s = Inr s'"
      and "\<forall>f \<in> set fs. \<forall>a b. f a = Inr b \<longrightarrow> g b = g a"
  shows "g s' = g s"
  using assms
proof (induction fs arbitrary: s)
  case Nil
  then show ?case by simp
next
  case (Cons f fs)
  from Cons.prems(1) obtain s1 where f: "f s = Inr s1" and r: "seq fs s1 = Inr s'"
    by (auto split: sum.splits)
  from Cons.prems(2) f have "g s1 = g s" by simp
  moreover from Cons.prems(2) have "g s' = g s1" by (intro Cons.IH [OF r]) simp
  ultimately show ?case by simp
qed

lemma rounds_of_append: "rounds_of (xs @ ys) = rounds_of xs @ rounds_of ys"
  by (induction xs rule: rounds_of.induct) simp_all

lemmas step_defs = clear_output_step_def choose_hits_per_read_def setup_step_def
  select_step_def swap_step_def check_error_def sort_hi_bits_step_def locate_init_step_def
  locate_lookup_step_def anchor_score_step_def compact_opposite_def fill_opposite_score_def
  opposite_score_step_def score_reduce_step_def advance_n_ext_def when_nz_def log_ev_def

lemma select_round_rounds:
  assumes "select_round P C params s = Inr s'"
  shows "rounds_of (trace s') = rounds_of (trace s)"
  using assms unfolding select_round_def
  by (rule seq_keeps)
     (auto simp: step_defs rounds_of_append split: if_splits prod.splits option.splits)

lemma score_round_rounds:
  assumes "score_round P w s = Inr s'"
  shows "rounds_of (trace s') = rounds_of (trace s)"
  using assms unfolding score_round_def
  by (rule seq_keeps)
     (auto simp: step_defs rounds_of_append split: if_splits prod.splits option.splits)

lemma extension_round_rounds:
  assumes "extension_round P C w params s = Break s' \<or> extension_round P C w params s = Next_round s'"
  shows "rounds_of (trace s') = rounds_of (trace s)"
  using assms
  by (auto simp: extension_round_def Let_def fetch_hits_queue_size_def
      dest!: select_round_rounds score_round_rounds split: sum.splits if_splits)

lemma extension_round_Break:
  "extension_round P C w params s = Break s' \<Longrightarrow> in_size s' = 0"
  by (auto simp: extension_round_def Let_def split: sum.splits if_splits)

lemma hits_per_read_cap:
  "q \<le> C div 2 \<Longrightarrow> hits_per_read C params n q \<le> max_ext params - n"
  by (simp add: hits_per_read_def Let_def min_le_iff_disj)

text \<open>
  \<^bold>\<open>C5\<close>, amended. The loop runs extension rounds until the active-read queue is empty:
  every round it starts finds the queue non-empty, and when the loop ends normally the
  queue is empty. The loop itself never compares \<open>n_ext\<close> with \<open>max_ext\<close>; the budget
  only caps the number of hits per read of a multi-hit round, which is at most
  \<open>max_ext - n_ext\<close> (in \<open>uint32\<close>).
\<close>

theorem extension_loop_runs_until_queue_empty:
  assumes "extension_loop fuel P BATCH_SIZE worst_score params s = Some (Inr s')"
  shows "in_size s' = 0 \<and>
         (\<exists>new. rounds_of (trace s') = rounds_of (trace s) @ new \<and>
            (\<forall>(p, n, q) \<in> set new.
               q \<noteq> 0 \<and>
               (q \<le> BATCH_SIZE div 2 \<longrightarrow>
                  hits_per_read BATCH_SIZE params n q \<le> max_ext params - n)))"
  using assms
proof (induction fuel arbitrary: s)
  case 0
  then show ?case by (auto split: if_splits)
next
  case (Suc fuel)
  show ?case
  proof (cases "in_size s = 0")
    case True
    with Suc.prems show ?thesis by simp
  next
    case False
    let ?s0 = "log_ev (Ev_round (extension_pass s) (n_ext s) (in_size s)) s"
    have r0: "rounds_of (trace ?s0) = rounds_of (trace s) @ [(extension_pass s, n_ext s, in_size s)]"
      by (simp add: log_ev_def rounds_of_append)
    have cap: "in_size s \<le> BATCH_SIZE div 2 \<longrightarrow>
                hits_per_read BATCH_SIZE params (n_ext s) (in_size s) \<le> max_ext params - n_ext s"
      by (simp add: hits_per_read_cap)
    show ?thesis
    proof (cases "extension_round P BATCH_SIZE worst_score params ?s0")
      case (Abort e)
      with Suc.prems False show ?thesis by simp
    next
      case (Break s1)
      with Suc.prems False have s1: "s' = s1" by simp
      have "rounds_of (trace s1) = rounds_of (trace ?s0)"
        using Break extension_round_rounds [of P BATCH_SIZE worst_score params ?s0 s1] by simp
      with r0 have "rounds_of (trace s') = rounds_of (trace s) @ [(extension_pass s, n_ext s, in_size s)]"
        using s1 by simp
      moreover have "in_size s' = 0" using Break s1 by (simp add: extension_round_Break)
      ultimately show ?thesis using False cap by auto
    next
      case (Next_round s1)
      let ?s2 = "s1\<lparr>extension_pass := extension_pass s1 + 1\<rparr>"
      from Suc.prems False Next_round
      have rec: "extension_loop fuel P BATCH_SIZE worst_score params ?s2 = Some (Inr s')"
        by simp
      from Suc.IH [OF rec] obtain new where
        z: "in_size s' = 0" and
        n: "rounds_of (trace s') = rounds_of (trace ?s2) @ new" and
        a: "\<forall>(p, n, q) \<in> set new. q \<noteq> 0 \<and>
               (q \<le> BATCH_SIZE div 2 \<longrightarrow>
                  hits_per_read BATCH_SIZE params n q \<le> max_ext params - n)"
        by blast
      have "rounds_of (trace s1) = rounds_of (trace ?s0)"
        using Next_round extension_round_rounds [of P BATCH_SIZE worst_score params ?s0 s1] by simp
      with r0 n have "rounds_of (trace s') =
          rounds_of (trace s) @ ((extension_pass s, n_ext s, in_size s) # new)"
        by simp
      moreover have "\<forall>(p, n, q) \<in> set ((extension_pass s, n_ext s, in_size s) # new). q \<noteq> 0 \<and>
               (q \<le> BATCH_SIZE div 2 \<longrightarrow>
                  hits_per_read BATCH_SIZE params n q \<le> max_ext params - n)"
        using a False cap by simp
      ultimately show ?thesis using z by blast
    qed
  qed
qed

theorem extension_loop_runs_until_queue_empty_witness:
  "extension_loop 5 countdown_prims 4 (-1) \<lparr>max_reseed = 0, max_ext = 1\<rparr> (loop_state 4 0 (device4 2))
     = Some (Inr (projr (the (extension_loop 5 countdown_prims 4 (-1)
                    \<lparr>max_reseed = 0, max_ext = 1\<rparr> (loop_state 4 0 (device4 2)))))) \<and>
   in_size (projr (the (extension_loop 5 countdown_prims 4 (-1)
                    \<lparr>max_reseed = 0, max_ext = 1\<rparr> (loop_state 4 0 (device4 2))))) = 0"
proof -
  have h: "extension_loop 5 countdown_prims 4 (-1) \<lparr>max_reseed = 0, max_ext = 1\<rparr>
             (loop_state 4 0 (device4 2))
     = Some (Inr (projr (the (extension_loop 5 countdown_prims 4 (-1)
                    \<lparr>max_reseed = 0, max_ext = 1\<rparr> (loop_state 4 0 (device4 2))))))"
    by code_simp
  from extension_loop_runs_until_queue_empty [OF h] h show ?thesis by blast
qed

text \<open>
  \<^bold>\<open>C5\<close>, as stated, fails. With \<open>max_ext = 1\<close>, a batch capacity of 4 and four reads
  that the selection kernel keeps active for three rounds, the rounds start with
  \<open>n_ext = 0, 1, 2\<close>: two more rounds run after \<open>n_ext\<close> has reached \<open>max_ext\<close>.
\<close>

theorem budget_exhausted_counterexample:
  "rounds_run 5 countdown_prims 4 (-1) \<lparr>max_reseed = 0, max_ext = 1\<rparr> (loop_state 4 0 (device4 2))
     = Some [(0, 0, 4), (1, 1, 4), (2, 2, 4)]"
  by code_simp

subsection \<open>The opposite-score buffer\<close>

lemma score_round_head:
  assumes "seq [sort_hi_bits_step P, locate_init_step P, locate_lookup_step P,
                check_error P m1, sort_hi_bits_step P, anchor_score_step P,
                check_error P m2] s = Inr s7"
  shows "hits_queue_size s7 = hits_queue_size s \<and> n_ext s7 = n_ext s \<and>
         trace s7 = trace s @ [Ev_sort_hi_bits, Ev_locate_init, Ev_locate_lookup,
                               Ev_sort_hi_bits, Ev_anchor_score_best]"
  using assms
  by (auto simp: seq_Inr_Cons step_defs split: if_splits prod.splits)

lemma compact_opposite_Inr:
  assumes "compact_opposite w s = Inr s'"
  shows "\<exists>res. length res \<le> unat (hits_queue_size s) \<and>
           s' = log_ev (Ev_compact_opposite res)
                  (s\<lparr>opposite_queue_size := of_nat (length res),
                     dev := (dev s)\<lparr>opposite_queue := res @ drop (length res) (opposite_queue (dev s))\<rparr>\<rparr>)"
proof -
  from assms obtain stencil res q where
    c: "copy_if (hits_queue_size s) stencil (\<lambda>x. x \<noteq> w) = Some res" and
    q: "write_prefix res (opposite_queue (dev s)) = Some q" and
    s': "s' = log_ev (Ev_compact_opposite res)
                  (s\<lparr>opposite_queue_size := of_nat (length res),
                     dev := (dev s)\<lparr>opposite_queue := q\<rparr>\<rparr>)"
    by (auto simp: compact_opposite_def split: option.splits)
  from c have "length res \<le> unat (hits_queue_size s)"
    using length_filter_le [of "\<lambda>i. stencil ! i \<noteq> w" "[0..<unat (hits_queue_size s)]"]
    by (auto simp: copy_if_def split: if_splits)
  moreover from q have "q = res @ drop (length res) (opposite_queue (dev s))"
    by (auto simp: write_prefix_def split: if_splits)
  ultimately show ?thesis using s' by blast
qed

lemma fill_opposite_score_Inr:
  assumes "fill_opposite_score w s = Inr s'"
  shows "unat (hits_queue_size s) \<le> length (opposite_score (dev s)) \<and>
         s' = log_ev (Ev_fill_opposite_score (hits_queue_size s))
                (s\<lparr>dev := (dev s)\<lparr>opposite_score :=
                      replicate (unat (hits_queue_size s)) w
                        @ drop (unat (hits_queue_size s)) (opposite_score (dev s))\<rparr>\<rparr>)"
  using assms
  by (auto simp: fill_opposite_score_def fill_def split: option.splits if_splits)

lemma opposite_targets_compacted:
  assumes "length res \<le> unat (n :: uint32)"
      and "opposite_queue_size s = of_nat (length res)"
      and "opposite_queue (dev s) = res @ rest"
  shows "opposite_targets s = map (\<lambda>k. unat (idx_queue s ! unat k)) res"
proof -
  have "length res < 2 ^ LENGTH(32)"
    using assms(1) unsigned_less [of n, where 'a=nat] by simp
  then have "unat (of_nat (length res) :: uint32) = length res"
    by (simp add: unat_of_nat)
  then show ?thesis
    using assms(2,3) by (simp add: opposite_targets_def)
qed

lemma of_nat_length_zero:
  assumes "length res \<le> unat (n :: uint32)"
  shows "(of_nat (length res) :: uint32) = 0 \<longleftrightarrow> res = []"
proof -
  have "length res < 2 ^ LENGTH(32)"
    using assms unsigned_less [of n, where 'a=nat] by simp
  then have u: "unat (of_nat (length res) :: uint32) = length res"
    by (simp add: unat_of_nat)
  show ?thesis
  proof
    assume "(of_nat (length res) :: uint32) = 0"
    then have "unat (of_nat (length res) :: uint32) = 0" by simp
    with u show "res = []" by simp
  next
    assume "res = []"
    then show "(of_nat (length res) :: uint32) = 0" by simp
  qed
qed

lemma score_round_tail:
  assumes run: "seq [compact_opposite w, fill_opposite_score w,
                     when_nz opposite_queue_size (opposite_score_step P),
                     check_error P m1, score_reduce_step P, check_error P m2,
                     advance_n_ext] s = Inr s'"
      and contract: "writes_only_compacted P"
  shows "\<exists>res buf.
           trace s' = trace s @ [Ev_compact_opposite res, Ev_fill_opposite_score (hits_queue_size s)]
                        @ (if res = [] then [] else [Ev_opposite_score_best])
                        @ [Ev_score_reduce_paired (n_ext s) buf] \<and>
           idx_queue s' = idx_queue s \<and>
           (\<forall>h < unat (hits_queue_size s).
              h \<notin> (\<lambda>k. unat (idx_queue s ! unat k)) ` set res \<longrightarrow> buf ! h = w)"
proof -
  from run obtain s1 s2 s3 s4 s5 s6 where
    c: "compact_opposite w s = Inr s1" and
    f: "fill_opposite_score w s1 = Inr s2" and
    o: "when_nz opposite_queue_size (opposite_score_step P) s2 = Inr s3" and
    e1: "check_error P m1 s3 = Inr s4" and
    r: "score_reduce_step P s4 = Inr s5" and
    e2: "check_error P m2 s5 = Inr s6" and
    a: "advance_n_ext s6 = Inr s'"
    unfolding seq_Inr_Cons by auto
  from compact_opposite_Inr [OF c] obtain res where
    len: "length res \<le> unat (hits_queue_size s)" and
    s1: "s1 = log_ev (Ev_compact_opposite res)
                  (s\<lparr>opposite_queue_size := of_nat (length res),
                     dev := (dev s)\<lparr>opposite_queue := res @ drop (length res) (opposite_queue (dev s))\<rparr>\<rparr>)"
    by blast
  from fill_opposite_score_Inr [OF f] have
    room: "unat (hits_queue_size s1) \<le> length (opposite_score (dev s1))" and
    s2: "s2 = log_ev (Ev_fill_opposite_score (hits_queue_size s1))
                (s1\<lparr>dev := (dev s1)\<lparr>opposite_score :=
                      replicate (unat (hits_queue_size s1)) w
                        @ drop (unat (hits_queue_size s1)) (opposite_score (dev s1))\<rparr>\<rparr>)"
    by simp_all
  have hq: "hits_queue_size s1 = hits_queue_size s" "hits_queue_size s2 = hits_queue_size s"
    and ne: "n_ext s2 = n_ext s" and ix: "idx_queue s2 = idx_queue s"
    and oq: "opposite_queue_size s2 = of_nat (length res)"
    and q2: "opposite_queue (dev s2) = res @ drop (length res) (opposite_queue (dev s))"
    and tr2: "trace s2 = trace s @ [Ev_compact_opposite res, Ev_fill_opposite_score (hits_queue_size s)]"
    by (simp_all add: s1 s2 log_ev_def)
  have filled: "\<forall>h < unat (hits_queue_size s). opposite_score (dev s2) ! h = w"
    by (simp add: s2 log_ev_def hq nth_append)
  have len2: "unat (hits_queue_size s) \<le> length (opposite_score (dev s2))"
    using room by (simp add: s2 log_ev_def hq)
  have tg: "opposite_targets s2 = map (\<lambda>k. unat (idx_queue s ! unat k)) res"
    using opposite_targets_compacted [OF len oq q2] ix by simp
  have s3: "trace s3 = trace s2 @ (if res = [] then [] else [Ev_opposite_score_best])"
    and keep3: "n_ext s3 = n_ext s2" "idx_queue s3 = idx_queue s2"
    and buf3: "\<forall>h < unat (hits_queue_size s).
                 h \<notin> (\<lambda>k. unat (idx_queue s ! unat k)) ` set res \<longrightarrow> opposite_score (dev s3) ! h = w"
  proof -
    show "trace s3 = trace s2 @ (if res = [] then [] else [Ev_opposite_score_best])"
      using o oq of_nat_length_zero [OF len]
      by (auto simp: when_nz_def opposite_score_step_def log_ev_def split: if_splits)
    show "n_ext s3 = n_ext s2" "idx_queue s3 = idx_queue s2"
      using o by (auto simp: when_nz_def opposite_score_step_def log_ev_def split: if_splits)
    show "\<forall>h < unat (hits_queue_size s).
                 h \<notin> (\<lambda>k. unat (idx_queue s ! unat k)) ` set res \<longrightarrow> opposite_score (dev s3) ! h = w"
    proof (cases "opposite_queue_size s2 = 0")
      case True
      with o have "s3 = s2" by (simp add: when_nz_def)
      with filled show ?thesis by simp
    next
      case False
      with o have d3: "dev s3 = p_opposite_score_best P s2"
        by (auto simp: when_nz_def opposite_score_step_def log_ev_def)
      from contract have
        "\<forall>h < length (opposite_score (dev s2)). h \<notin> set (opposite_targets s2) \<longrightarrow>
            opposite_score (p_opposite_score_best P s2) ! h = opposite_score (dev s2) ! h"
        unfolding writes_only_compacted_def by blast
      with filled len2 show ?thesis by (simp add: d3 tg)
    qed
  qed
  have s4: "s4 = s3" using e1 by (auto simp: check_error_def split: if_splits)
  have tr5: "trace s5 = trace s4 @ [Ev_score_reduce_paired (n_ext s4) (opposite_score (dev s4))]"
    and keep5: "idx_queue s5 = idx_queue s4"
    using r by (auto simp: score_reduce_step_def log_ev_def)
  have s6: "s6 = s5" using e2 by (auto simp: check_error_def split: if_splits)
  have fin: "trace s' = trace s6" "idx_queue s' = idx_queue s6"
    using a by (auto simp: advance_n_ext_def)
  have "trace s' = trace s @ [Ev_compact_opposite res, Ev_fill_opposite_score (hits_queue_size s)]
                        @ (if res = [] then [] else [Ev_opposite_score_best])
                        @ [Ev_score_reduce_paired (n_ext s) (opposite_score (dev s3))]"
    by (simp add: fin s6 tr5 s4 s3 tr2 keep3 ne)
  moreover have "idx_queue s' = idx_queue s"
    by (simp add: fin s6 keep5 s4 keep3 ix)
  ultimately show ?thesis using buf3 by blast
qed

lemma seq_append:
  "seq (fs @ gs) s = (case seq fs s of Inl e \<Rightarrow> Inl e | Inr s1 \<Rightarrow> seq gs s1)"
  by (induction fs arbitrary: s) (auto split: sum.splits)

text \<open>
  \<^bold>\<open>C8\<close>, amended. In every extension round that reaches scoring, the entries
  \<open>0 .. hits_queue_size - 1\<close> of the opposite-score buffer are reset to the worst score
  after the compaction of the opposite-mate candidates and before the opposite mates are
  scored. So, with an opposite-mate scorer that writes only the entries of the compacted
  subset, every selected hit outside that subset still carries the worst score in the buffer
  the reduction reads.
\<close>

theorem opposite_score_reset_after_compaction:
  assumes run: "score_round P worst_score s = Inr s'"
      and contract: "writes_only_compacted P"
  shows "\<exists>res buf.
           trace s' = trace s @ [Ev_sort_hi_bits, Ev_locate_init, Ev_locate_lookup,
                                 Ev_sort_hi_bits, Ev_anchor_score_best,
                                 Ev_compact_opposite res,
                                 Ev_fill_opposite_score (hits_queue_size s)]
                        @ (if res = [] then [] else [Ev_opposite_score_best])
                        @ [Ev_score_reduce_paired (n_ext s) buf] \<and>
           (\<forall>h < unat (hits_queue_size s).
              h \<notin> (\<lambda>k. unat (idx_queue s' ! unat k)) ` set res \<longrightarrow> buf ! h = worst_score)"
proof -
  let ?head = "[sort_hi_bits_step P, locate_init_step P, locate_lookup_step P,
                check_error P ''locating kernel'', sort_hi_bits_step P, anchor_score_step P,
                check_error P ''score kernel'']"
  let ?tail = "[compact_opposite worst_score, fill_opposite_score worst_score,
                when_nz opposite_queue_size (opposite_score_step P),
                check_error P ''opposite-score kernel'', score_reduce_step P,
                check_error P ''score-reduce kernel'', advance_n_ext]"
  have "score_round P worst_score = seq (?head @ ?tail)"
    by (simp add: score_round_def)
  with run obtain s7 where h: "seq ?head s = Inr s7" and t: "seq ?tail s7 = Inr s'"
    by (auto simp: seq_append split: sum.splits)
  from score_round_head [OF h] have
    hq: "hits_queue_size s7 = hits_queue_size s" and ne: "n_ext s7 = n_ext s" and
    tr: "trace s7 = trace s @ [Ev_sort_hi_bits, Ev_locate_init, Ev_locate_lookup,
                               Ev_sort_hi_bits, Ev_anchor_score_best]"
    by simp_all
  from score_round_tail [OF t contract] obtain res buf where
    "trace s' = trace s7 @ [Ev_compact_opposite res, Ev_fill_opposite_score (hits_queue_size s7)]
                        @ (if res = [] then [] else [Ev_opposite_score_best])
                        @ [Ev_score_reduce_paired (n_ext s7) buf]" and
    "idx_queue s' = idx_queue s7" and
    "\<forall>h < unat (hits_queue_size s7).
              h \<notin> (\<lambda>k. unat (idx_queue s7 ! unat k)) ` set res \<longrightarrow> buf ! h = worst_score"
    by blast
  then show ?thesis by (intro exI [of _ res] exI [of _ buf]) (simp add: hq ne tr)
qed

lemma countdown_writes_only_compacted: "writes_only_compacted countdown_prims"
  by (simp add: writes_only_compacted_def countdown_prims_def)

theorem opposite_score_reset_after_compaction_witness:
  "score_round countdown_prims (-1) ((loop_state 4 0 (device4 2))\<lparr>hits_queue_size := 4\<rparr>)
     = Inr (projr (score_round countdown_prims (-1)
                     ((loop_state 4 0 (device4 2))\<lparr>hits_queue_size := 4\<rparr>))) \<and>
   writes_only_compacted countdown_prims \<and>
   (\<exists>res buf.
      trace (projr (score_round countdown_prims (-1)
                     ((loop_state 4 0 (device4 2))\<lparr>hits_queue_size := 4\<rparr>)))
        = trace ((loop_state 4 0 (device4 2))\<lparr>hits_queue_size := 4\<rparr>)
            @ [Ev_sort_hi_bits, Ev_locate_init, Ev_locate_lookup, Ev_sort_hi_bits,
               Ev_anchor_score_best, Ev_compact_opposite res,
               Ev_fill_opposite_score
                 (hits_queue_size ((loop_state 4 0 (device4 2))\<lparr>hits_queue_size := 4\<rparr>))]
            @ (if res = [] then [] else [Ev_opposite_score_best])
            @ [Ev_score_reduce_paired
                 (n_ext ((loop_state 4 0 (device4 2))\<lparr>hits_queue_size := 4\<rparr>)) buf] \<and>
      (\<forall>h < unat (hits_queue_size ((loop_state 4 0 (device4 2))\<lparr>hits_queue_size := 4\<rparr>)).
         h \<notin> (\<lambda>k. unat (idx_queue (projr (score_round countdown_prims (-1)
                     ((loop_state 4 0 (device4 2))\<lparr>hits_queue_size := 4\<rparr>))) ! unat k)) ` set res
           \<longrightarrow> buf ! h = -1))"
proof -
  let ?s = "(loop_state 4 0 (device4 2))\<lparr>hits_queue_size := 4\<rparr>"
  have h: "score_round countdown_prims (-1) ?s
             = Inr (projr (score_round countdown_prims (-1) ?s))"
    by code_simp
  from opposite_score_reset_after_compaction [OF h countdown_writes_only_compacted]
       h countdown_writes_only_compacted
  show ?thesis by blast
qed

text \<open>
  \<^bold>\<open>C8\<close>, as stated, fails on the order. In a round over four hits with anchor scores
  \<open>[5, worst, 6, worst]\<close> the compaction (which yields the positions 0 and 2) comes first
  and the reset of the opposite scores follows it.
\<close>

theorem reset_before_compaction_counterexample:
  "map_sum id trace
     (score_round countdown_prims (-1) ((loop_state 4 0 (device4 2))\<lparr>hits_queue_size := 4\<rparr>))
     = Inr [Ev_sort_hi_bits, Ev_locate_init, Ev_locate_lookup, Ev_sort_hi_bits,
            Ev_anchor_score_best, Ev_compact_opposite [0, 2], Ev_fill_opposite_score 4,
            Ev_opposite_score_best, Ev_score_reduce_paired 0 [7, -1, 7, -1]] \<and>
   \<not> reset_before_compaction False
       (trace (projr (score_round countdown_prims (-1)
                        ((loop_state 4 0 (device4 2))\<lparr>hits_queue_size := 4\<rparr>))))"
  by code_simp

section \<open>Properties of the batch driver\<close>

subsection \<open>Steps that keep an observation\<close>

lemma keepsD: "keeps g f \<Longrightarrow> f a = Inr b \<Longrightarrow> g b = g a"
  by (simp add: keeps_def)

lemma keeps_seq:
  assumes "\<forall>f \<in> set fs. keeps g f"
  shows "keeps g (seq fs)"
  unfolding keeps_def
proof (intro allI impI)
  fix a b assume run: "seq fs a = Inr b"
  have "\<forall>f \<in> set fs. \<forall>a b. f a = Inr b \<longrightarrow> g b = g a"
    using assms by (simp add: keeps_def)
  with run show "g b = g a" by (rule seq_keeps [where g = g])
qed

lemma keeps_when_nz: "keeps g body \<Longrightarrow> keeps g (when_nz n body)"
  by (auto simp: keeps_def when_nz_def split: if_splits)

lemma compactions_append: "compactions (xs @ ys) = compactions xs @ compactions ys"
  by (induction xs rule: compactions.induct) simp_all




lemma keeps_events_quiet_steps:
  "keeps (\<lambda>s. g (events s)) (a_check_error P msg)"
  "keeps (\<lambda>s. g (events s)) (init_alignments_step P)"
  "keeps (\<lambda>s. g (events s)) (fill_seed_queue cnt)"
  "keeps (\<lambda>s. g (events s)) clear_output"
  "keeps (\<lambda>s. g (events s)) swap"
  "keeps (\<lambda>s. g (events s)) (map_step P anchor seeding_pass)"
  "keeps (\<lambda>s. g (events s)) (best_approx_score_step P anchor seeding_pass)"
  by (auto simp: keeps_def a_check_error_def init_alignments_step_def fill_seed_queue_def
      clear_output_def swap_def map_step_def best_approx_score_step_def
      split: if_splits prod.splits sum.splits)

text \<open>An observation of the events that does not see the seeding passes is kept by the
  seeding of an anchor.\<close>

lemma keeps_events_seeding_pass_body:
  assumes "\<And>xs a p q. g (xs @ [Ev_seeding_pass a p q]) = g xs"
  shows "keeps (\<lambda>s. g (events s)) (seeding_pass_body P anchor seeding_pass)"
  unfolding seeding_pass_body_def
proof (rule keeps_seq)
  have "keeps (\<lambda>s. g (events s)) (\<lambda>s. Inr (emit (Ev_seeding_pass anchor seeding_pass (seed_in s)) s))"
    by (simp add: keeps_def emit_def assms)
  then show "\<forall>f \<in> set [\<lambda>s. Inr (emit (Ev_seeding_pass anchor seeding_pass (seed_in s)) s),
                  clear_output, map_step P anchor seeding_pass,
                  a_check_error P ''mapping kernel'',
                  best_approx_score_step P anchor seeding_pass, swap].
           keeps (\<lambda>s. g (events s)) f"
    by (simp add: keeps_events_quiet_steps)
qed

lemma keeps_events_seeding_loop:
  assumes "\<And>xs a p q. g (xs @ [Ev_seeding_pass a p q]) = g xs"
  shows "keeps (\<lambda>s. g (events s)) (seeding_loop P anchor k seeding_pass)"
proof -
  have "seeding_loop P anchor k seeding_pass a = Inr b \<Longrightarrow> g (events b) = g (events a)" for a b
  proof (induction k arbitrary: a seeding_pass)
    case 0
    then show ?case by simp
  next
    case (Suc k)
    show ?case
    proof (cases "seed_in a = []")
      case True
      with Suc.prems show ?thesis by simp
    next
      case False
      with Suc.prems obtain a1 where
        b: "seeding_pass_body P anchor seeding_pass a = Inr a1" and
        l: "seeding_loop P anchor k (seeding_pass + 1) a1 = Inr b"
        by (auto split: sum.splits)
      from keepsD [OF keeps_events_seeding_pass_body b, of g] assms Suc.IH [OF l]
      show ?thesis by simp
    qed
  qed
  then show ?thesis by (simp add: keeps_def)
qed

lemma keeps_events_anchor_pass:
  assumes "\<And>xs a p q. g (xs @ [Ev_seeding_pass a p q]) = g xs"
  shows "keeps (\<lambda>s. g (events s)) (anchor_pass P params cnt anchor)"
  unfolding anchor_pass_def
  by (rule keeps_seq) (simp add: keeps_events_quiet_steps keeps_events_seeding_loop assms)

text \<open>The driver up to the finishing stages: \<open>init_alignments\<close> and the seeding of both
  anchors.\<close>

lemma best_approx_Inr:
  assumes "best_approx P params cnt s = Inr s'"
      and "\<And>xs a p q. g (xs @ [Ev_seeding_pass a p q]) = g xs"
  shows "\<exists>s3 s4. g (events s3) = g (events s) \<and> finish P cnt s3 = Inr s4 \<and>
           s' = s4\<lparr>batch_number := batch_number s4 + 1\<rparr>"
proof -
  from assms(1) obtain s1 s2 s3 s4 where
    i: "init_alignments_step P s = Inr s1" and
    a0: "anchor_pass P params cnt 0 s1 = Inr s2" and
    a1: "anchor_pass P params cnt 1 s2 = Inr s3" and
    f: "finish P cnt s3 = Inr s4" and
    e: "s' = s4\<lparr>batch_number := batch_number s4 + 1\<rparr>"
    unfolding best_approx_def seq_Inr_Cons by auto
  have k: "keeps (\<lambda>s. g (events s)) (anchor_pass P params cnt anchor)" for anchor
    using assms(2) by (rule keeps_events_anchor_pass)
  have "g (events s3) = g (events s)"
    using keepsD [OF keeps_events_quiet_steps(2) i, of g] keepsD [OF k a0] keepsD [OF k a1]
    by simp
  with f e show ?thesis by blast
qed












subsection \<open>Backtracking\<close>

lemma tracebacks_append: "tracebacks (xs @ ys) = tracebacks xs @ tracebacks ys"
  by (induction xs rule: tracebacks.induct) simp_all

lemma keeps_calls_quiet_steps:
  "keeps (\<lambda>s. (compactions (events s), tracebacks (events s))) clear_cigar"
  "keeps (\<lambda>s. (compactions (events s), tracebacks (events s))) clear_mds"
  "keeps (\<lambda>s. (compactions (events s), tracebacks (events s))) (process m rk r)"
  by (auto simp: keeps_def clear_cigar_def clear_mds_def process_def emit_def
      compactions_append tracebacks_append)

text \<open>A successful compaction: the indices found, at most \<open>count\<close> of them, are at the
  front of \<open>loc\<close>, and their number is stored.\<close>

lemma compact_Inr:
  assumes "compact P cnt p r store s = Inr s1"
  shows "\<exists>res. length res \<le> unat cnt \<and>
           s1 = emit (Ev_compact p r res)
                  (store (of_nat (length res))
                     (s\<lparr>loc := res @ drop (length res) (loc s), loc_src := Some p\<rparr>))"
proof -
  from assms obtain res l where
    c: "copy_if cnt (registry r s) (a_sat P p) = Some res" and
    w: "write_prefix res (loc s) = Some l" and
    s1: "s1 = emit (Ev_compact p r res) (store (of_nat (length res)) (s\<lparr>loc := l, loc_src := Some p\<rparr>))"
    by (auto simp: compact_def split: option.splits)
  from c have "length res \<le> unat cnt"
    using length_filter_le [of "\<lambda>i. a_sat P p (registry r s ! i)" "[0..<unat cnt]"]
    by (auto simp: copy_if_def split: if_splits)
  moreover from w have "l = res @ drop (length res) (loc s)"
    by (auto simp: write_prefix_def split: if_splits)
  ultimately show ?thesis using s1 by blast
qed

lemma unat_of_nat_length:
  assumes "length res \<le> unat (cnt :: uint32)"
  shows "unat (of_nat (length res) :: uint32) = length res"
proof -
  have "length res < 2 ^ LENGTH(32)"
    using assms unsigned_less [of cnt, where 'a=nat] by simp
  then show ?thesis by (simp add: unat_of_nat)
qed

text \<open>A compaction followed by the guarded launch of one kernel on its result: the kernel
  is launched exactly when the result is not empty, with the number of indices found and
  with those indices.\<close>

lemma compact_then_launch:
  assumes run: "seq [compact P cnt p r store,
                     when_nz n (seq [launch P (\<lambda>x. Call k t (n x) (loc_idx (n x) x) r'),
                                     a_check_error P msg])] s = Inr s'"
      and store: "\<And>v x. n (store v x) = v" "\<And>x es. n (x\<lparr>events := es\<rparr>) = n x"
                 "\<And>v x. loc (store v x) = loc x"
                 "\<And>v x. loc_src (store v x) = loc_src x" "\<And>v x. events (store v x) = events x"
  shows "\<exists>res. compactions (events s') = compactions (events s) @ [(p, r, res)] \<and>
           tracebacks (events s') = tracebacks (events s)
             @ (if res = [] then []
                else tracebacks [Ev_kernel (Call k t (of_nat (length res))
                                              (Loc_idx (Some p) res) r')])"
proof -
  from run obtain s1 where
    c: "compact P cnt p r store s = Inr s1" and
    w: "when_nz n (seq [launch P (\<lambda>x. Call k t (n x) (loc_idx (n x) x) r'),
                        a_check_error P msg]) s1 = Inr s'"
    unfolding seq_Inr_Cons by auto
  from compact_Inr [OF c] obtain res where
    len: "length res \<le> unat cnt" and
    s1: "s1 = emit (Ev_compact p r res)
                  (store (of_nat (length res))
                     (s\<lparr>loc := res @ drop (length res) (loc s), loc_src := Some p\<rparr>))"
    by blast
  have n1: "n s1 = of_nat (length res)" and l1: "loc s1 = res @ drop (length res) (loc s)"
    and src1: "loc_src s1 = Some p" and ev1: "events s1 = events s @ [Ev_compact p r res]"
    by (simp_all add: s1 emit_def store)
  have idx: "loc_idx (n s1) s1 = Loc_idx (Some p) res"
    by (simp add: loc_idx_def n1 l1 src1 unat_of_nat_length [OF len])
  have z: "n s1 = 0 \<longleftrightarrow> res = []"
    using of_nat_length_zero [OF len] by (simp add: n1)
  show ?thesis
  proof (cases "res = []")
    case True
    with z w have "s' = s1" by (simp add: when_nz_def)
    with True ev1 show ?thesis by (simp add: compactions_append tracebacks_append)
  next
    case False
    with z w obtain s2 where
      l: "launch P (\<lambda>x. Call k t (n x) (loc_idx (n x) x) r') s1 = Inr s2" and
      e: "a_check_error P msg s2 = Inr s'"
      by (auto simp: when_nz_def split: sum.splits)
    from l have "events s2 = events s1 @ [Ev_kernel (Call k t (n s1) (loc_idx (n s1) s1) r')]"
      by (auto simp: launch_def emit_def Let_def split: prod.splits)
    moreover from e have "s' = s2" by (auto simp: a_check_error_def split: if_splits)
    ultimately have "events s' = events s @ [Ev_compact p r res,
        Ev_kernel (Call k t (of_nat (length res)) (Loc_idx (Some p) res) r')]"
      by (simp add: ev1 n1 idx [unfolded n1])
    with False show ?thesis
      by (simp add: compactions_append tracebacks_append)
  qed
qed


lemma three_compact_then_launch:
  assumes run: "seq [clear_cigar, clear_mds,
                     compact P cnt p1 r st1,
                     when_nz n1 (seq [launch P (\<lambda>x. Call k1 t (n1 x) (loc_idx (n1 x) x) r'),
                                      a_check_error P m1]),
                     compact P cnt p2 r st2,
                     when_nz n2 (seq [launch P (\<lambda>x. Call k2 t (n2 x) (loc_idx (n2 x) x) r'),
                                      a_check_error P m2]),
                     compact P cnt p3 r st3,
                     when_nz n3 (seq [launch P (\<lambda>x. Call k3 t (n3 x) (loc_idx (n3 x) x) r'),
                                      a_check_error P m3]),
                     process m rk r''] s = Inr s'"
      and st1: "\<And>v x. n1 (st1 v x) = v" "\<And>x es. n1 (x\<lparr>events := es\<rparr>) = n1 x"
               "\<And>v x. loc (st1 v x) = loc x" "\<And>v x. loc_src (st1 v x) = loc_src x"
               "\<And>v x. events (st1 v x) = events x"
      and st2: "\<And>v x. n2 (st2 v x) = v" "\<And>x es. n2 (x\<lparr>events := es\<rparr>) = n2 x"
               "\<And>v x. loc (st2 v x) = loc x" "\<And>v x. loc_src (st2 v x) = loc_src x"
               "\<And>v x. events (st2 v x) = events x"
      and st3: "\<And>v x. n3 (st3 v x) = v" "\<And>x es. n3 (x\<lparr>events := es\<rparr>) = n3 x"
               "\<And>v x. loc (st3 v x) = loc x" "\<And>v x. loc_src (st3 v x) = loc_src x"
               "\<And>v x. events (st3 v x) = events x"
  shows "\<exists>res1 res2 res3.
           compactions (events s') = compactions (events s)
             @ [(p1, r, res1), (p2, r, res2), (p3, r, res3)] \<and>
           tracebacks (events s') = tracebacks (events s)
             @ (if res1 = [] then []
                else tracebacks [Ev_kernel (Call k1 t (of_nat (length res1))
                                              (Loc_idx (Some p1) res1) r')])
             @ (if res2 = [] then []
                else tracebacks [Ev_kernel (Call k2 t (of_nat (length res2))
                                              (Loc_idx (Some p2) res2) r')])
             @ (if res3 = [] then []
                else tracebacks [Ev_kernel (Call k3 t (of_nat (length res3))
                                              (Loc_idx (Some p3) res3) r')])"
proof -
  let ?O = "\<lambda>s. (compactions (events s), tracebacks (events s))"
  let ?w1 = "when_nz n1 (seq [launch P (\<lambda>x. Call k1 t (n1 x) (loc_idx (n1 x) x) r'),
                             a_check_error P m1])"
  let ?w2 = "when_nz n2 (seq [launch P (\<lambda>x. Call k2 t (n2 x) (loc_idx (n2 x) x) r'),
                             a_check_error P m2])"
  let ?w3 = "when_nz n3 (seq [launch P (\<lambda>x. Call k3 t (n3 x) (loc_idx (n3 x) x) r'),
                             a_check_error P m3])"
  from run obtain x1 x2 x3 x4 x5 x6 x7 x8 where
    s1: "clear_cigar s = Inr x1" and s2: "clear_mds x1 = Inr x2" and
    s3: "compact P cnt p1 r st1 x2 = Inr x3" and s4: "?w1 x3 = Inr x4" and
    s5: "compact P cnt p2 r st2 x4 = Inr x5" and s6: "?w2 x5 = Inr x6" and
    s7: "compact P cnt p3 r st3 x6 = Inr x7" and s8: "?w3 x7 = Inr x8" and
    s9: "process m rk r'' x8 = Inr s'"
    unfolding seq_Inr_Cons by auto
  have o2: "?O x2 = ?O s"
    using keepsD [OF keeps_calls_quiet_steps(1) s1] keepsD [OF keeps_calls_quiet_steps(2) s2]
    by simp
  have b1: "seq [compact P cnt p1 r st1, ?w1] x2 = Inr x4" using s3 s4 by simp
  have b2: "seq [compact P cnt p2 r st2, ?w2] x4 = Inr x6" using s5 s6 by simp
  have b3: "seq [compact P cnt p3 r st3, ?w3] x6 = Inr x8" using s7 s8 by simp
  from compact_then_launch [where n = n1 and store = st1, OF b1 st1] obtain res1 where
    r1: "compactions (events x4) = compactions (events x2) @ [(p1, r, res1)]"
        "tracebacks (events x4) = tracebacks (events x2)
           @ (if res1 = [] then []
              else tracebacks [Ev_kernel (Call k1 t (of_nat (length res1))
                                            (Loc_idx (Some p1) res1) r')])"
    by blast
  from compact_then_launch [where n = n2 and store = st2, OF b2 st2] obtain res2 where
    r2: "compactions (events x6) = compactions (events x4) @ [(p2, r, res2)]"
        "tracebacks (events x6) = tracebacks (events x4)
           @ (if res2 = [] then []
              else tracebacks [Ev_kernel (Call k2 t (of_nat (length res2))
                                            (Loc_idx (Some p2) res2) r')])"
    by blast
  from compact_then_launch [where n = n3 and store = st3, OF b3 st3] obtain res3 where
    r3: "compactions (events x8) = compactions (events x6) @ [(p3, r, res3)]"
        "tracebacks (events x8) = tracebacks (events x6)
           @ (if res3 = [] then []
              else tracebacks [Ev_kernel (Call k3 t (of_nat (length res3))
                                            (Loc_idx (Some p3) res3) r')])"
    by blast
  have o9: "?O s' = ?O x8" using keepsD [OF keeps_calls_quiet_steps(3) s9] by simp
  have "compactions (events s') = compactions (events s)
             @ [(p1, r, res1), (p2, r, res2), (p3, r, res3)]"
    using o9 r3(1) r2(1) r1(1) o2 by simp
  moreover have "tracebacks (events s') = tracebacks (events s)
             @ (if res1 = [] then []
                else tracebacks [Ev_kernel (Call k1 t (of_nat (length res1))
                                              (Loc_idx (Some p1) res1) r')])
             @ (if res2 = [] then []
                else tracebacks [Ev_kernel (Call k2 t (of_nat (length res2))
                                              (Loc_idx (Some p2) res2) r')])
             @ (if res3 = [] then []
                else tracebacks [Ev_kernel (Call k3 t (of_nat (length res3))
                                              (Loc_idx (Some p3) res3) r')])"
    using o9 r3(2) r2(2) r1(2) o2 by simp
  ultimately show ?thesis by blast
qed

lemma finish_anchor_best_calls:
  assumes "finish_anchor_best P cnt s = Inr s'"
  shows "compactions (events s') = compactions (events s) \<and>
         tracebacks (events s') =
           tracebacks (events s) @ [Call Banded_traceback 0 cnt Null_idx Anchor_data]"
  using assms
  by (auto simp: finish_anchor_best_def seq_Inr_Cons clear_cigar_def clear_mds_def
      a_check_error_def launch_def process_def emit_def tracebacks_append compactions_append
      Let_def split: if_splits prod.splits)

lemma finish_opposite_best_calls:
  assumes "finish_opposite_best P cnt s = Inr s'"
  shows "\<exists>rp ru ra.
           compactions (events s') = compactions (events s)
             @ [(Is_paired, Opposite_data, rp), (Is_unpaired, Opposite_data, ru),
                (Is_aligned, Opposite_data, ra)] \<and>
           tracebacks (events s') = tracebacks (events s)
             @ (if rp = [] then []
                else [Call Opposite_traceback 0 (of_nat (length rp))
                        (Loc_idx (Some Is_paired) rp) Opposite_data])
             @ (if ru = [] then []
                else [Call Banded_traceback 0 (of_nat (length ru))
                        (Loc_idx (Some Is_unpaired) ru) Opposite_data])"
proof -
  from assms [unfolded finish_opposite_best_def]
  have "\<exists>res1 res2 res3.
           compactions (events s') = compactions (events s)
             @ [(Is_paired, Opposite_data, res1), (Is_unpaired, Opposite_data, res2),
                (Is_aligned, Opposite_data, res3)] \<and>
           tracebacks (events s') = tracebacks (events s)
             @ (if res1 = [] then []
                else tracebacks [Ev_kernel (Call Opposite_traceback 0 (of_nat (length res1))
                                              (Loc_idx (Some Is_paired) res1) Opposite_data)])
             @ (if res2 = [] then []
                else tracebacks [Ev_kernel (Call Banded_traceback 0 (of_nat (length res2))
                                              (Loc_idx (Some Is_unpaired) res2) Opposite_data)])
             @ (if res3 = [] then []
                else tracebacks [Ev_kernel (Call Finish_opposite_alignment 0 (of_nat (length res3))
                                              (Loc_idx (Some Is_aligned) res3) Opposite_data)])"
    by (rule three_compact_then_launch) simp_all
  then obtain res1 res2 res3 where
    "compactions (events s') = compactions (events s)
       @ [(Is_paired, Opposite_data, res1), (Is_unpaired, Opposite_data, res2),
          (Is_aligned, Opposite_data, res3)]"
    "tracebacks (events s') = tracebacks (events s)
       @ (if res1 = [] then []
          else [Call Opposite_traceback 0 (of_nat (length res1))
                  (Loc_idx (Some Is_paired) res1) Opposite_data])
       @ (if res2 = [] then []
          else [Call Banded_traceback 0 (of_nat (length res2))
                  (Loc_idx (Some Is_unpaired) res2) Opposite_data])"
    by auto
  then show ?thesis by blast
qed

lemma finish_opposite_second_calls:
  assumes "finish_opposite_second P cnt s = Inr s'"
  shows "\<exists>rsp rsu rso.
           compactions (events s') = compactions (events s)
             @ [(Has_second_paired, Opposite_data, rsp), (Has_second_unpaired, Opposite_data, rsu),
                (Has_second, Opposite_data, rso)] \<and>
           tracebacks (events s') = tracebacks (events s)
             @ (if rsp = [] then []
                else [Call Opposite_traceback 1 (of_nat (length rsp))
                        (Loc_idx (Some Has_second_paired) rsp) Opposite_data])
             @ (if rsu = [] then []
                else [Call Banded_traceback 1 (of_nat (length rsu))
                        (Loc_idx (Some Has_second_unpaired) rsu) Opposite_data])"
proof -
  from assms [unfolded finish_opposite_second_def]
  have "\<exists>res1 res2 res3.
           compactions (events s') = compactions (events s)
             @ [(Has_second_paired, Opposite_data, res1), (Has_second_unpaired, Opposite_data, res2),
                (Has_second, Opposite_data, res3)] \<and>
           tracebacks (events s') = tracebacks (events s)
             @ (if res1 = [] then []
                else tracebacks [Ev_kernel (Call Opposite_traceback 1 (of_nat (length res1))
                                              (Loc_idx (Some Has_second_paired) res1) Opposite_data)])
             @ (if res2 = [] then []
                else tracebacks [Ev_kernel (Call Banded_traceback 1 (of_nat (length res2))
                                              (Loc_idx (Some Has_second_unpaired) res2) Opposite_data)])
             @ (if res3 = [] then []
                else tracebacks [Ev_kernel (Call Finish_opposite_alignment 1 (of_nat (length res3))
                                              (Loc_idx (Some Has_second) res3) Opposite_data)])"
    by (rule three_compact_then_launch) simp_all
  then obtain res1 res2 res3 where
    "compactions (events s') = compactions (events s)
       @ [(Has_second_paired, Opposite_data, res1), (Has_second_unpaired, Opposite_data, res2),
          (Has_second, Opposite_data, res3)]"
    "tracebacks (events s') = tracebacks (events s)
       @ (if res1 = [] then []
          else [Call Opposite_traceback 1 (of_nat (length res1))
                  (Loc_idx (Some Has_second_paired) res1) Opposite_data])
       @ (if res2 = [] then []
          else [Call Banded_traceback 1 (of_nat (length res2))
                  (Loc_idx (Some Has_second_unpaired) res2) Opposite_data])"
    by auto
  then show ?thesis by blast
qed


lemma finish_anchor_second_calls:
  assumes "finish_anchor_second P cnt s = Inr s'"
  shows "\<exists>rs. compactions (events s') = compactions (events s) @ [(Has_second, Anchor_data, rs)] \<and>
              tracebacks (events s') = tracebacks (events s)
                @ (if rs = [] then []
                   else [Call Banded_traceback 1 (of_nat (length rs))
                           (Loc_idx (Some Has_second) rs) Anchor_data])"
proof -
  let ?body = "seq [clear_cigar, clear_mds,
                  launch P (\<lambda>s. Call Banded_traceback 1 (n_second s)
                                  (loc_idx (n_second s) s) Anchor_data),
                  a_check_error P ''second-best backtracking kernel'',
                  launch P (\<lambda>s. Call Finish_alignment 1 (n_second s)
                                  (loc_idx (n_second s) s) Anchor_data),
                  a_check_error P ''second-best alignment kernel'']"
  from assms obtain x1 x2 where
    c: "compact P cnt Has_second Anchor_data (\<lambda>n s. s\<lparr>n_second := n\<rparr>) s = Inr x1" and
    w: "when_nz n_second ?body x1 = Inr x2" and
    p: "process MATE_1 SECOND_BEST_SCORE Anchor_data x2 = Inr s'"
    unfolding finish_anchor_second_def seq_Inr_Cons by auto
  from compact_Inr [OF c] obtain rs where
    len: "length rs \<le> unat cnt" and
    x1: "x1 = emit (Ev_compact Has_second Anchor_data rs)
                  (s\<lparr>loc := rs @ drop (length rs) (loc s), loc_src := Some Has_second,
                     n_second := of_nat (length rs)\<rparr>)"
    by auto
  have n1: "n_second x1 = of_nat (length rs)"
    and ev1: "events x1 = events s @ [Ev_compact Has_second Anchor_data rs]"
    by (simp_all add: x1 emit_def)
  have idx: "loc_idx (of_nat (length rs)) x1 = Loc_idx (Some Has_second) rs"
    by (simp add: loc_idx_def x1 emit_def unat_of_nat_length [OF len])
  have z: "n_second x1 = 0 \<longleftrightarrow> rs = []"
    using of_nat_length_zero [OF len] by (simp add: n1)
  have ev2: "events x2 = events x1
      @ (if rs = [] then []
         else [Ev_clear_cigar, Ev_clear_mds,
               Ev_kernel (Call Banded_traceback 1 (of_nat (length rs))
                            (Loc_idx (Some Has_second) rs) Anchor_data),
               Ev_kernel (Call Finish_alignment 1 (of_nat (length rs))
                            (Loc_idx (Some Has_second) rs) Anchor_data)])"
  proof (cases "rs = []")
    case True
    with z w show ?thesis by (simp add: when_nz_def)
  next
    case False
    with z w have b: "?body x1 = Inr x2" by (simp add: when_nz_def)
    have i: "loc_idx (of_nat (length rs)) (y\<lparr>events := es\<rparr>) = loc_idx (of_nat (length rs)) y"
      "loc_idx (of_nat (length rs)) (y\<lparr>cigar := cg\<rparr>) = loc_idx (of_nat (length rs)) y"
      "loc_idx (of_nat (length rs)) (y\<lparr>mds := md\<rparr>) = loc_idx (of_nat (length rs)) y"
      "loc_idx (of_nat (length rs)) (y\<lparr>best_data := a\<rparr>) = loc_idx (of_nat (length rs)) y"
      "loc_idx (of_nat (length rs)) (y\<lparr>best_data_o := a\<rparr>) = loc_idx (of_nat (length rs)) y"
      for y :: "('a, 'b) astate" and es cg md a
      by (simp_all add: loc_idx_def)
    from b False show ?thesis
      by (auto simp: seq_Inr_Cons clear_cigar_def clear_mds_def launch_def a_check_error_def
          emit_def Let_def n1 i idx split: if_splits prod.splits)
  qed
  from p have ev': "events s' = events x2 @ [Ev_process MATE_1 SECOND_BEST_SCORE Anchor_data (cigar x2) (mds x2)]"
    by (auto simp: process_def emit_def)
  show ?thesis
    by (rule exI [of _ rs]) (simp add: ev' ev2 ev1 compactions_append tracebacks_append)
qed

text \<open>
  \<^bold>\<open>C7.\<close> The backtracking calls of a batch, in order, each with the number of reads and
  the index list it is handed. The banded kernel runs on all \<open>count\<close> reads for the
  anchor's best alignments. For the opposite mates of the best alignments, the full
  (\<open>opposite_traceback_best\<close>) kernel runs on exactly the indices the compaction by
  \<open>is_paired\<close> has found, and the banded kernel on exactly those the compaction by
  \<open>is_unpaired\<close> has found. The second-best rank is alike: banded on the indices found by
  \<open>has_second\<close> over the anchor's vector, full on those found by \<open>has_second_paired\<close>,
  banded on those found by \<open>has_second_unpaired\<close>. A call on a compaction is made
  exactly when the compaction has found an index.
\<close>

theorem traceback_kernel_by_subset:
  assumes "best_approx P params cnt s = Inr s'"
  shows "\<exists>rp ru ra rs rsp rsu rso.
           compactions (events s') = compactions (events s)
             @ [(Is_paired, Opposite_data, rp), (Is_unpaired, Opposite_data, ru),
                (Is_aligned, Opposite_data, ra), (Has_second, Anchor_data, rs),
                (Has_second_paired, Opposite_data, rsp),
                (Has_second_unpaired, Opposite_data, rsu),
                (Has_second, Opposite_data, rso)] \<and>
           tracebacks (events s') = tracebacks (events s)
             @ [Call Banded_traceback 0 cnt Null_idx Anchor_data]
             @ (if rp = [] then []
                else [Call Opposite_traceback 0 (of_nat (length rp))
                        (Loc_idx (Some Is_paired) rp) Opposite_data])
             @ (if ru = [] then []
                else [Call Banded_traceback 0 (of_nat (length ru))
                        (Loc_idx (Some Is_unpaired) ru) Opposite_data])
             @ (if rs = [] then []
                else [Call Banded_traceback 1 (of_nat (length rs))
                        (Loc_idx (Some Has_second) rs) Anchor_data])
             @ (if rsp = [] then []
                else [Call Opposite_traceback 1 (of_nat (length rsp))
                        (Loc_idx (Some Has_second_paired) rsp) Opposite_data])
             @ (if rsu = [] then []
                else [Call Banded_traceback 1 (of_nat (length rsu))
                        (Loc_idx (Some Has_second_unpaired) rsu) Opposite_data])"
proof -
  from best_approx_Inr [OF assms, of "\<lambda>es. (compactions es, tracebacks es)"] obtain s3 s4 where
    k: "compactions (events s3) = compactions (events s)"
       "tracebacks (events s3) = tracebacks (events s)" and
    f: "finish P cnt s3 = Inr s4" and
    e: "s' = s4\<lparr>batch_number := batch_number s4 + 1\<rparr>"
    by (auto simp: tracebacks_append compactions_append)
  from f obtain t1 t2 t3 where
    1: "finish_anchor_best P cnt s3 = Inr t1" and 2: "finish_opposite_best P cnt t1 = Inr t2" and
    3: "finish_anchor_second P cnt t2 = Inr t3" and 4: "finish_opposite_second P cnt t3 = Inr s4"
    unfolding finish_def seq_Inr_Cons by auto
  note a = finish_anchor_best_calls [OF 1]
  from finish_opposite_best_calls [OF 2] obtain rp ru ra where
    b: "compactions (events t2) = compactions (events t1)
             @ [(Is_paired, Opposite_data, rp), (Is_unpaired, Opposite_data, ru),
                (Is_aligned, Opposite_data, ra)]"
       "tracebacks (events t2) = tracebacks (events t1)
             @ (if rp = [] then []
                else [Call Opposite_traceback 0 (of_nat (length rp))
                        (Loc_idx (Some Is_paired) rp) Opposite_data])
             @ (if ru = [] then []
                else [Call Banded_traceback 0 (of_nat (length ru))
                        (Loc_idx (Some Is_unpaired) ru) Opposite_data])"
    by blast
  from finish_anchor_second_calls [OF 3] obtain rs where
    c: "compactions (events t3) = compactions (events t2) @ [(Has_second, Anchor_data, rs)]"
       "tracebacks (events t3) = tracebacks (events t2)
                @ (if rs = [] then []
                   else [Call Banded_traceback 1 (of_nat (length rs))
                           (Loc_idx (Some Has_second) rs) Anchor_data])"
    by blast
  from finish_opposite_second_calls [OF 4] obtain rsp rsu rso where
    d: "compactions (events s4) = compactions (events t3)
             @ [(Has_second_paired, Opposite_data, rsp), (Has_second_unpaired, Opposite_data, rsu),
                (Has_second, Opposite_data, rso)]"
       "tracebacks (events s4) = tracebacks (events t3)
             @ (if rsp = [] then []
                else [Call Opposite_traceback 1 (of_nat (length rsp))
                        (Loc_idx (Some Has_second_paired) rsp) Opposite_data])
             @ (if rsu = [] then []
                else [Call Banded_traceback 1 (of_nat (length rsu))
                        (Loc_idx (Some Has_second_unpaired) rsu) Opposite_data])"
    by blast
  have ev: "events s' = events s4" using e by simp
  have "compactions (events s') = compactions (events s)
             @ [(Is_paired, Opposite_data, rp), (Is_unpaired, Opposite_data, ru),
                (Is_aligned, Opposite_data, ra), (Has_second, Anchor_data, rs),
                (Has_second_paired, Opposite_data, rsp),
                (Has_second_unpaired, Opposite_data, rsu),
                (Has_second, Opposite_data, rso)]"
    by (simp add: ev d(1) c(1) b(1) a k)
  moreover have "tracebacks (events s') = tracebacks (events s)
             @ [Call Banded_traceback 0 cnt Null_idx Anchor_data]
             @ (if rp = [] then []
                else [Call Opposite_traceback 0 (of_nat (length rp))
                        (Loc_idx (Some Is_paired) rp) Opposite_data])
             @ (if ru = [] then []
                else [Call Banded_traceback 0 (of_nat (length ru))
                        (Loc_idx (Some Is_unpaired) ru) Opposite_data])
             @ (if rs = [] then []
                else [Call Banded_traceback 1 (of_nat (length rs))
                        (Loc_idx (Some Has_second) rs) Anchor_data])
             @ (if rsp = [] then []
                else [Call Opposite_traceback 1 (of_nat (length rsp))
                        (Loc_idx (Some Has_second_paired) rsp) Opposite_data])
             @ (if rsu = [] then []
                else [Call Banded_traceback 1 (of_nat (length rsu))
                        (Loc_idx (Some Has_second_unpaired) rsu) Opposite_data])"
    by (simp only: ev d(2) c(2) b(2) a k append_assoc)
  ultimately show ?thesis by blast
qed

text \<open>Three reads: the opposite mates are paired, unpaired with an unpaired second-best,
  and paired with a paired second-best; the second read has a second-best anchor alignment.
  All six calls are made, each on the reads of its subset.\<close>

theorem traceback_kernel_by_subset_witness:
  "best_approx flag_prims \<lparr>max_reseed = 1, max_ext = 1\<rparr> 3
      (batch_state [[], [Has_second], []]
         [[Is_paired, Is_aligned],
          [Is_unpaired, Is_aligned, Has_second, Has_second_unpaired],
          [Is_paired, Is_aligned, Has_second, Has_second_paired]])
     = Inr (projr (best_approx flag_prims \<lparr>max_reseed = 1, max_ext = 1\<rparr> 3
      (batch_state [[], [Has_second], []]
         [[Is_paired, Is_aligned],
          [Is_unpaired, Is_aligned, Has_second, Has_second_unpaired],
          [Is_paired, Is_aligned, Has_second, Has_second_paired]]))) \<and>
   tracebacks (events (projr (best_approx flag_prims \<lparr>max_reseed = 1, max_ext = 1\<rparr> 3
      (batch_state [[], [Has_second], []]
         [[Is_paired, Is_aligned],
          [Is_unpaired, Is_aligned, Has_second, Has_second_unpaired],
          [Is_paired, Is_aligned, Has_second, Has_second_paired]]))))
     = [Call Banded_traceback 0 3 Null_idx Anchor_data,
        Call Opposite_traceback 0 2 (Loc_idx (Some Is_paired) [0, 2]) Opposite_data,
        Call Banded_traceback 0 1 (Loc_idx (Some Is_unpaired) [1]) Opposite_data,
        Call Banded_traceback 1 1 (Loc_idx (Some Has_second) [1]) Anchor_data,
        Call Opposite_traceback 1 1 (Loc_idx (Some Has_second_paired) [2]) Opposite_data,
        Call Banded_traceback 1 1 (Loc_idx (Some Has_second_unpaired) [1]) Opposite_data]"
proof -
  let ?s = "batch_state [[], [Has_second], []]
         [[Is_paired, Is_aligned],
          [Is_unpaired, Is_aligned, Has_second, Has_second_unpaired],
          [Is_paired, Is_aligned, Has_second, Has_second_paired]] :: (pred_id list, unit) astate"
  let ?r = "best_approx flag_prims \<lparr>max_reseed = 1, max_ext = 1\<rparr> 3 ?s"
  have h: "?r = Inr (projr ?r)"
    by code_simp
  have e: "events ?s = []"
    by (simp add: batch_state_def)
  have cs: "compactions (events (projr ?r))
      = [(Is_paired, Opposite_data, [0, 2]), (Is_unpaired, Opposite_data, [1]),
         (Is_aligned, Opposite_data, [0, 1, 2]), (Has_second, Anchor_data, [1]),
         (Has_second_paired, Opposite_data, [2]), (Has_second_unpaired, Opposite_data, [1]),
         (Has_second, Opposite_data, [1, 2])]"
    by code_simp
  from traceback_kernel_by_subset [OF h] obtain rp ru ra rs rsp rsu rso where
    c: "compactions (events (projr ?r)) = compactions (events ?s)
             @ [(Is_paired, Opposite_data, rp), (Is_unpaired, Opposite_data, ru),
                (Is_aligned, Opposite_data, ra), (Has_second, Anchor_data, rs),
                (Has_second_paired, Opposite_data, rsp),
                (Has_second_unpaired, Opposite_data, rsu),
                (Has_second, Opposite_data, rso)]" and
    t: "tracebacks (events (projr ?r)) = tracebacks (events ?s)
             @ [Call Banded_traceback 0 3 Null_idx Anchor_data]
             @ (if rp = [] then []
                else [Call Opposite_traceback 0 (of_nat (length rp))
                        (Loc_idx (Some Is_paired) rp) Opposite_data])
             @ (if ru = [] then []
                else [Call Banded_traceback 0 (of_nat (length ru))
                        (Loc_idx (Some Is_unpaired) ru) Opposite_data])
             @ (if rs = [] then []
                else [Call Banded_traceback 1 (of_nat (length rs))
                        (Loc_idx (Some Has_second) rs) Anchor_data])
             @ (if rsp = [] then []
                else [Call Opposite_traceback 1 (of_nat (length rsp))
                        (Loc_idx (Some Has_second_paired) rsp) Opposite_data])
             @ (if rsu = [] then []
                else [Call Banded_traceback 1 (of_nat (length rsu))
                        (Loc_idx (Some Has_second_unpaired) rsu) Opposite_data])"
    by blast
  from c have r: "rp = [0, 2]" "ru = [1]" "rs = [1]" "rsp = [2]" "rsu = [1]"
    by (auto simp: cs e)
  from t have "tracebacks (events (projr ?r))
     = [Call Banded_traceback 0 3 Null_idx Anchor_data,
        Call Opposite_traceback 0 2 (Loc_idx (Some Is_paired) [0, 2]) Opposite_data,
        Call Banded_traceback 0 1 (Loc_idx (Some Is_unpaired) [1]) Opposite_data,
        Call Banded_traceback 1 1 (Loc_idx (Some Has_second) [1]) Anchor_data,
        Call Opposite_traceback 1 1 (Loc_idx (Some Has_second_paired) [2]) Opposite_data,
        Call Banded_traceback 1 1 (Loc_idx (Some Has_second_unpaired) [1]) Opposite_data]"
    by (simp add: r e)
  with h show ?thesis by blast
qed

subsection \<open>The transcript buffers\<close>

text \<open>
  \<^bold>\<open>C6\<close> does not hold of the code. One read whose opposite mate is paired and whose anchor
  has no second-best alignment: the compaction by \<open>has_second\<close> is empty, so the block that
  clears \<open>cigar\<close> and \<open>mds\<close> for the anchor's second-best stage (lines 413--460) is skipped
  as a whole, and the batch emitted for (mate 1, second-best) wraps the buffers as the stage
  of the opposite mate's best alignments left them. The other three stages clear the
  buffers before anything else.
\<close>

theorem second_best_batch_wraps_stale_transcripts:
  "batches (events (projr (best_approx flag_prims \<lparr>max_reseed = 1, max_ext = 1\<rparr> 1
                             (batch_state [[]] [[Is_paired, Is_aligned]]))))
     = [(MATE_1, BEST_SCORE,
           [Call Banded_traceback 0 1 Null_idx Anchor_data,
            Call Finish_alignment 0 1 Null_idx Anchor_data],
           [Call Banded_traceback 0 1 Null_idx Anchor_data,
            Call Finish_alignment 0 1 Null_idx Anchor_data]),
        (MATE_2, BEST_SCORE,
           [Call Opposite_traceback 0 1 (Loc_idx (Some Is_paired) [0]) Opposite_data,
            Call Finish_opposite_alignment 0 1 (Loc_idx (Some Is_aligned) [0]) Opposite_data],
           [Call Opposite_traceback 0 1 (Loc_idx (Some Is_paired) [0]) Opposite_data,
            Call Finish_opposite_alignment 0 1 (Loc_idx (Some Is_aligned) [0]) Opposite_data]),
        (MATE_1, SECOND_BEST_SCORE,
           [Call Opposite_traceback 0 1 (Loc_idx (Some Is_paired) [0]) Opposite_data,
            Call Finish_opposite_alignment 0 1 (Loc_idx (Some Is_aligned) [0]) Opposite_data],
           [Call Opposite_traceback 0 1 (Loc_idx (Some Is_paired) [0]) Opposite_data,
            Call Finish_opposite_alignment 0 1 (Loc_idx (Some Is_aligned) [0]) Opposite_data]),
        (MATE_2, SECOND_BEST_SCORE, [], [])] \<and>
   \<not> batches_from_own_stage
       (events (projr (best_approx flag_prims \<lparr>max_reseed = 1, max_ext = 1\<rparr> 1
                         (batch_state [[]] [[Is_paired, Is_aligned]]))))"
  by code_simp

subsection \<open>Seeding passes\<close>

lemma seed_queues_of_append:
  "seed_queues_of anchor (xs @ ys) = seed_queues_of anchor xs @ seed_queues_of anchor ys"
  by (induction anchor xs rule: seed_queues_of.induct) simp_all

lemma seeding_pass_body_Inr:
  assumes "seeding_pass_body P anchor seeding_pass s = Inr s'"
  shows "events s' = events s @ [Ev_seeding_pass anchor seeding_pass (seed_in s)] \<and>
         (reseeds_subset P \<longrightarrow> mset (seed_in s') \<subseteq># mset (seed_in s))"
proof -
  from assms obtain s1 s2 s3 s4 s5 where
    1: "s1 = emit (Ev_seeding_pass anchor seeding_pass (seed_in s)) s" and
    2: "clear_output s1 = Inr s2" and
    3: "map_step P anchor seeding_pass s2 = Inr s3" and
    4: "a_check_error P ''mapping kernel'' s3 = Inr s4" and
    5: "best_approx_score_step P anchor seeding_pass s4 = Inr s5" and
    6: "swap s5 = Inr s'"
    unfolding seeding_pass_body_def seq_Inr_Cons by auto
  have in4: "seed_in s4 = seed_in s" and ev4: "events s4 = events s1"
    using 1 2 3 4
    by (auto simp: emit_def clear_output_def map_step_def a_check_error_def split: if_splits)
  from 5 obtain r where r: "a_best_approx_score P anchor seeding_pass s4 = Inr r"
    and out5: "seed_out s5 = e_seed_out r" and ev5: "events s5 = events s4"
    by (auto simp: best_approx_score_step_def split: sum.splits)
  from 6 have in': "seed_in s' = seed_out s5" and ev': "events s' = events s5"
    by (auto simp: swap_def)
  have "events s' = events s @ [Ev_seeding_pass anchor seeding_pass (seed_in s)]"
    by (simp add: ev' ev5 ev4 1 emit_def)
  moreover have "mset (seed_in s') \<subseteq># mset (seed_in s)" if "reseeds_subset P"
    using that r by (simp add: in' out5 reseeds_subset_def in4 [symmetric])
  ultimately show ?thesis by blast
qed

lemma seeding_loop_queues:
  assumes "reseeds_subset P" and "seeding_loop P anchor k seeding_pass s = Inr s'"
  shows "\<exists>qs. seed_queues_of anchor (events s') = seed_queues_of anchor (events s) @ qs \<and>
              sorted_wrt (\<lambda>x y. mset y \<subseteq># mset x) qs \<and>
              (\<forall>q \<in> set qs. mset q \<subseteq># mset (seed_in s)) \<and>
              (qs \<noteq> [] \<longrightarrow> hd qs = seed_in s) \<and>
              length qs \<le> k"
  using assms(2)
proof (induction k arbitrary: s seeding_pass)
  case 0
  then show ?case by simp
next
  case (Suc k)
  show ?case
  proof (cases "seed_in s = []")
    case True
    with Suc.prems show ?thesis by simp
  next
    case False
    with Suc.prems obtain s1 where
      b: "seeding_pass_body P anchor seeding_pass s = Inr s1" and
      l: "seeding_loop P anchor k (seeding_pass + 1) s1 = Inr s'"
      by (auto split: sum.splits)
    from seeding_pass_body_Inr [OF b] assms(1) have
      ev: "events s1 = events s @ [Ev_seeding_pass anchor seeding_pass (seed_in s)]" and
      sub: "mset (seed_in s1) \<subseteq># mset (seed_in s)"
      by simp_all
    from Suc.IH [OF l] obtain qs where
      q: "seed_queues_of anchor (events s') = seed_queues_of anchor (events s1) @ qs" and
      so: "sorted_wrt (\<lambda>x y. mset y \<subseteq># mset x) qs" and
      al: "\<forall>q \<in> set qs. mset q \<subseteq># mset (seed_in s1)" and
      le: "length qs \<le> k"
      by blast
    have al': "\<forall>q \<in> set qs. mset q \<subseteq># mset (seed_in s)"
      using al sub by (meson subset_mset.order_trans)
    have "seed_queues_of anchor (events s') =
            seed_queues_of anchor (events s) @ (seed_in s # qs)"
      by (simp add: q ev seed_queues_of_append)
    moreover have "sorted_wrt (\<lambda>x y. mset y \<subseteq># mset x) (seed_in s # qs)"
      using so al' by simp
    moreover have "\<forall>q \<in> set (seed_in s # qs). mset q \<subseteq># mset (seed_in s)"
      using al' by simp
    ultimately show ?thesis using le
      by (intro exI [of _ "seed_in s # qs"]) simp
  qed
qed

text \<open>
  \<^bold>\<open>C9.\<close> Within one batch and for one anchor, with a scoring pipeline that queues for
  re-seeding only reads of its input queue: the seed queue never grows from one seeding
  pass to a later one, it never holds more than \<open>count\<close> reads (the first pass works on
  all \<open>count\<close> of them), and a read that is not in the queue at some pass is not in it at
  any later pass. There are at most \<open>max_reseed + 1\<close> passes.
\<close>

theorem seed_queue_narrows:
  assumes "reseeds_subset P" and "anchor_pass P params cnt anchor s = Inr s'"
  shows "\<exists>qs. seed_queues_of anchor (events s') = seed_queues_of anchor (events s) @ qs \<and>
           (\<forall>i j. i \<le> j \<and> j < length qs \<longrightarrow>
                length (qs ! j) \<le> length (qs ! i) \<and>
                (\<forall>r. r \<notin> set (qs ! i) \<longrightarrow> r \<notin> set (qs ! j))) \<and>
           (\<forall>q \<in> set qs. length q \<le> unat cnt) \<and>
           (qs \<noteq> [] \<longrightarrow> length (hd qs) = unat cnt) \<and>
           length qs \<le> unat (max_reseed params + 1)"
proof -
  let ?s0 = "s\<lparr>seed_in := map of_nat [0..<unat cnt]\<rparr>"
  from assms(2) have l: "seeding_loop P anchor (unat (max_reseed params + 1)) 0 ?s0 = Inr s'"
    by (auto simp: anchor_pass_def fill_seed_queue_def split: sum.splits)
  from seeding_loop_queues [OF assms(1) l] obtain qs where
    q: "seed_queues_of anchor (events s') = seed_queues_of anchor (events s) @ qs" and
    so: "sorted_wrt (\<lambda>x y. mset y \<subseteq># mset x) qs" and
    al: "\<forall>q \<in> set qs. mset q \<subseteq># mset (map of_nat [0..<unat cnt] :: uint32 list)" and
    hd: "qs \<noteq> [] \<longrightarrow> hd qs = map of_nat [0..<unat cnt]" and
    le: "length qs \<le> unat (max_reseed params + 1)"
    by auto
  have pair: "length (qs ! j) \<le> length (qs ! i) \<and> (\<forall>r. r \<notin> set (qs ! i) \<longrightarrow> r \<notin> set (qs ! j))"
    if "i \<le> j" "j < length qs" for i j
  proof (cases "i = j")
    case True
    then show ?thesis by simp
  next
    case False
    with that have "i < j" by simp
    with so that(2) have sub: "mset (qs ! j) \<subseteq># mset (qs ! i)"
      by (simp add: sorted_wrt_iff_nth_less)
    from size_mset_mono [OF sub] have "length (qs ! j) \<le> length (qs ! i)" by simp
    moreover from set_mset_mono [OF sub] have "set (qs ! j) \<subseteq> set (qs ! i)" by simp
    ultimately show ?thesis by blast
  qed
  have bound: "length q \<le> unat cnt" if "q \<in> set qs" for q
  proof -
    from al that have "mset q \<subseteq># mset (map of_nat [0..<unat cnt] :: uint32 list)" by blast
    from size_mset_mono [OF this] show ?thesis by simp
  qed
  from hd have "qs \<noteq> [] \<longrightarrow> length (hd qs) = unat cnt" by simp
  with q pair bound le show ?thesis by blast
qed

lemma flag_prims_reseeds_subset: "reseeds_subset flag_prims"
proof -
  have "mset (tl xs) \<subseteq># mset xs" for xs :: "uint32 list"
    by (cases xs) simp_all
  then show ?thesis by (auto simp: reseeds_subset_def flag_prims_def)
qed

theorem seed_queue_narrows_witness:
  "reseeds_subset flag_prims \<and>
   anchor_pass flag_prims \<lparr>max_reseed = 1, max_ext = 1\<rparr> 3 0 (batch_state [[], [], []] [[], [], []])
     = Inr (projr (anchor_pass flag_prims \<lparr>max_reseed = 1, max_ext = 1\<rparr> 3 0
                     (batch_state [[], [], []] [[], [], []]))) \<and>
   seed_queues_of 0 (events (projr (anchor_pass flag_prims \<lparr>max_reseed = 1, max_ext = 1\<rparr> 3 0
                     (batch_state [[], [], []] [[], [], []]))))
     = [[0, 1, 2], [1, 2]] \<and>
   (\<exists>qs. seed_queues_of 0 (events (projr (anchor_pass flag_prims \<lparr>max_reseed = 1, max_ext = 1\<rparr> 3 0
                     (batch_state [[], [], []] [[], [], []]))))
          = seed_queues_of 0 (events (batch_state [[], [], []] [[], [], []] :: (pred_id list, unit) astate)) @ qs \<and>
         (\<forall>i j. i \<le> j \<and> j < length qs \<longrightarrow>
              length (qs ! j) \<le> length (qs ! i) \<and>
              (\<forall>r. r \<notin> set (qs ! i) \<longrightarrow> r \<notin> set (qs ! j))) \<and>
         (\<forall>q \<in> set qs. length q \<le> unat (3 :: uint32)) \<and>
         (qs \<noteq> [] \<longrightarrow> length (hd qs) = unat (3 :: uint32)) \<and>
         length qs \<le> unat (max_reseed \<lparr>max_reseed = 1, max_ext = 1\<rparr> + 1))"
proof -
  let ?s = "batch_state [[], [], []] [[], [], []] :: (pred_id list, unit) astate"
  let ?r = "anchor_pass flag_prims \<lparr>max_reseed = 1, max_ext = 1\<rparr> 3 0 ?s"
  have h: "?r = Inr (projr ?r)"
    by code_simp
  have q: "seed_queues_of 0 (events (projr ?r)) = [[0, 1, 2], [1, 2]]"
    by code_simp
  from seed_queue_narrows [OF flag_prims_reseeds_subset h] flag_prims_reseeds_subset h q
  show ?thesis by blast
qed

subsection \<open>Compactions\<close>

lemma copy_if_index_filter:
  "copy_if cnt stencil pred = Some res \<Longrightarrow> res = index_filter cnt pred stencil \<and> unat cnt \<le> length stencil"
  by (auto simp: copy_if_def index_filter_def split: if_splits)

lemma index_filter_pairing:
  assumes "map pairing_of reg' = map pairing_of reg" and "unat cnt \<le> length reg"
  shows "index_filter cnt (selection_functor p) reg' = index_filter cnt (selection_functor p) reg"
proof -
  have len: "length reg' = length reg" using assms(1) by (metis length_map)
  have "pairing_of (reg' ! i) = pairing_of (reg ! i)" if "i < unat cnt" for i
  proof -
    from that assms(2) len have "i < length reg" "i < length reg'" by simp_all
    then show ?thesis using assms(1) by (metis nth_map)
  qed
  then have "filter (\<lambda>i. selection_functor p (reg' ! i)) [0..<unat cnt]
           = filter (\<lambda>i. selection_functor p (reg ! i)) [0..<unat cnt]"
    by (intro filter_cong) (simp_all add: selection_functor_def)
  then show ?thesis by (simp add: index_filter_def)
qed

lemma set_index_filter:
  "set (index_filter cnt pred reg) = of_nat ` {i. i < unat cnt \<and> pred (reg ! i)}"
  by (auto simp: index_filter_def)

lemma of_nat_inj_below:
  assumes "i < unat (cnt :: uint32)" "j < unat cnt" "(of_nat i :: uint32) = of_nat j"
  shows "i = j"
proof -
  have "i < 2 ^ LENGTH(32)" "j < 2 ^ LENGTH(32)"
    using assms(1,2) unsigned_less [of cnt, where 'a=nat] by simp_all
  then have u: "unat (of_nat i :: uint32) = i" "unat (of_nat j :: uint32) = j"
    by (simp_all add: unat_of_nat)
  have "unat (of_nat i :: uint32) = unat (of_nat j :: uint32)"
    using assms(3) by (rule arg_cong)
  then show ?thesis by (simp only: u)
qed

lemma index_filter_disjoint:
  assumes "\<And>x. \<not> (p x \<and> q x)"
  shows "set (index_filter cnt p reg) \<inter> set (index_filter cnt q reg) = {}"
proof (rule ccontr)
  assume "set (index_filter cnt p reg) \<inter> set (index_filter cnt q reg) \<noteq> {}"
  then obtain i j where i: "i < unat cnt" "p (reg ! i)" and j: "j < unat cnt" "q (reg ! j)"
    and eq: "(of_nat i :: uint32) = of_nat j"
    by (auto simp: set_index_filter)
  from of_nat_inj_below [OF i(1) j(1) eq] have "i = j" .
  with i(2) j(2) assms show False by blast
qed

lemma paired_unpaired_disjoint:
  "set (index_filter cnt (selection_functor Is_paired) reg)
     \<inter> set (index_filter cnt (selection_functor Is_unpaired) reg) = {}"
  "set (index_filter cnt (selection_functor Has_second_paired) reg)
     \<inter> set (index_filter cnt (selection_functor Has_second_unpaired) reg) = {}"
  by (rule index_filter_disjoint, simp add: selection_functor_def pairing_of_def)+

lemma paired_unpaired_union:
  "set (index_filter cnt (selection_functor Is_paired) reg)
     \<union> set (index_filter cnt (selection_functor Is_unpaired) reg)
   = set (index_filter cnt (selection_functor Is_aligned) reg)"
  "set (index_filter cnt (selection_functor Has_second_paired) reg)
     \<union> set (index_filter cnt (selection_functor Has_second_unpaired) reg)
   = set (index_filter cnt (selection_functor Has_second) reg)"
  by (auto simp: set_index_filter selection_functor_def pairing_of_def)

text \<open>What the finishing stages must not lose sight of: the pairing outcomes in both
  vectors of best alignments, and the compactions made so far.\<close>

lemma keeps_pairing_quiet_steps:
  "keeps (\<lambda>s. (map pairing_of (best_data s), map pairing_of (best_data_o s),
               compactions (events s))) clear_cigar"
  "keeps (\<lambda>s. (map pairing_of (best_data s), map pairing_of (best_data_o s),
               compactions (events s))) clear_mds"
  "keeps (\<lambda>s. (map pairing_of (best_data s), map pairing_of (best_data_o s),
               compactions (events s))) (a_check_error P msg)"
  "keeps (\<lambda>s. (map pairing_of (best_data s), map pairing_of (best_data_o s),
               compactions (events s))) (process m rk r)"
  by (auto simp: keeps_def clear_cigar_def clear_mds_def a_check_error_def process_def
      emit_def compactions_append split: if_splits)

lemma keeps_pairing_launch:
  assumes "kernels_keep_pairing P"
  shows "keeps (\<lambda>s. (map pairing_of (best_data s), map pairing_of (best_data_o s),
                     compactions (events s))) (launch P mk)"
  using assms
  by (auto simp: keeps_def launch_def kernels_keep_pairing_def emit_def compactions_append
      Let_def split: prod.splits)

lemma compact_pairing:
  assumes run: "compact P cnt p r store a = Inr b"
      and sat: "a_sat P = selection_functor"
      and store: "\<And>n x. best_data (store n x) = best_data x"
                 "\<And>n x. best_data_o (store n x) = best_data_o x"
                 "\<And>n x. events (store n x) = events x"
  shows "best_data b = best_data a \<and> best_data_o b = best_data_o a \<and>
         unat cnt \<le> length (registry r a) \<and>
         compactions (events b) = compactions (events a)
            @ [(p, r, index_filter cnt (selection_functor p) (registry r a))]"
proof -
  from run obtain res l where
    c: "copy_if cnt (registry r a) (a_sat P p) = Some res" and
    b: "b = emit (Ev_compact p r res) (store (of_nat (length res)) (a\<lparr>loc := l, loc_src := Some p\<rparr>))"
    by (auto simp: compact_def split: option.splits)
  from copy_if_index_filter [OF c] sat have
    "res = index_filter cnt (selection_functor p) (registry r a)" "unat cnt \<le> length (registry r a)"
    by simp_all
  then show ?thesis by (simp add: b emit_def store compactions_append)
qed

lemma registry_pairing:
  assumes "map pairing_of (best_data b) = map pairing_of (best_data a)"
      and "map pairing_of (best_data_o b) = map pairing_of (best_data_o a)"
  shows "map pairing_of (registry r b) = map pairing_of (registry r a)"
  using assms by (cases r) (simp_all add: registry_def)

lemma three_compactions:
  assumes run: "seq [c1, c2, compact P cnt p1 r st1, w1, compact P cnt p2 r st2, w2,
                     compact P cnt p3 r st3, w3, fin] s = Inr s'"
      and quiet: "\<forall>f \<in> {c1, c2, w1, w2, w3, fin}.
                    keeps (\<lambda>s. (map pairing_of (best_data s), map pairing_of (best_data_o s),
                                 compactions (events s))) f"
      and sat: "a_sat P = selection_functor"
      and store: "\<forall>st \<in> {st1, st2, st3}. \<forall>n x. best_data (st n x) = best_data x \<and>
                     best_data_o (st n x) = best_data_o x \<and> events (st n x) = events x"
  shows "map pairing_of (best_data s') = map pairing_of (best_data s) \<and>
         map pairing_of (best_data_o s') = map pairing_of (best_data_o s) \<and>
         compactions (events s') = compactions (events s)
           @ [(p1, r, index_filter cnt (selection_functor p1) (registry r s)),
              (p2, r, index_filter cnt (selection_functor p2) (registry r s)),
              (p3, r, index_filter cnt (selection_functor p3) (registry r s))]"
proof -
  let ?O = "\<lambda>s. (map pairing_of (best_data s), map pairing_of (best_data_o s),
                  compactions (events s))"
  from run obtain x1 x2 x3 x4 x5 x6 x7 x8 where
    s1: "c1 s = Inr x1" and s2: "c2 x1 = Inr x2" and
    s3: "compact P cnt p1 r st1 x2 = Inr x3" and s4: "w1 x3 = Inr x4" and
    s5: "compact P cnt p2 r st2 x4 = Inr x5" and s6: "w2 x5 = Inr x6" and
    s7: "compact P cnt p3 r st3 x6 = Inr x7" and s8: "w3 x7 = Inr x8" and
    s9: "fin x8 = Inr s'"
    unfolding seq_Inr_Cons by auto
  from quiet have k: "keeps ?O c1" "keeps ?O c2" "keeps ?O w1" "keeps ?O w2" "keeps ?O w3"
    "keeps ?O fin"
    by simp_all
  have o2: "?O x2 = ?O s"
    using keepsD [OF k(1) s1] keepsD [OF k(2) s2] by simp
  from store have st:
    "\<And>n x. best_data (st1 n x) = best_data x" "\<And>n x. best_data_o (st1 n x) = best_data_o x"
    "\<And>n x. events (st1 n x) = events x"
    "\<And>n x. best_data (st2 n x) = best_data x" "\<And>n x. best_data_o (st2 n x) = best_data_o x"
    "\<And>n x. events (st2 n x) = events x"
    "\<And>n x. best_data (st3 n x) = best_data x" "\<And>n x. best_data_o (st3 n x) = best_data_o x"
    "\<And>n x. events (st3 n x) = events x"
    by simp_all
  note a3 = compact_pairing [OF s3 sat st(1,2,3)]
  note a5 = compact_pairing [OF s5 sat st(4,5,6)]
  note a7 = compact_pairing [OF s7 sat st(7,8,9)]
  have o4: "?O x4 = ?O x3" using keepsD [OF k(3) s4] by simp
  have o6: "?O x6 = ?O x5" using keepsD [OF k(4) s6] by simp
  have o8: "?O s' = ?O x7" using keepsD [OF k(5) s8] keepsD [OF k(6) s9] by simp
  have r2: "map pairing_of (registry r x2) = map pairing_of (registry r s)"
    using o2 by (intro registry_pairing) simp_all
  have r4: "map pairing_of (registry r x4) = map pairing_of (registry r x2)"
    using o4 a3 by (intro registry_pairing) simp_all
  have r6: "map pairing_of (registry r x6) = map pairing_of (registry r x4)"
    using o6 a5 by (intro registry_pairing) simp_all
  have len: "unat cnt \<le> length (registry r s)"
    using a3 r2 by (metis length_map)
  have len4: "unat cnt \<le> length (registry r x2)" using a3 by simp
  have f1: "index_filter cnt (selection_functor p1) (registry r x2)
          = index_filter cnt (selection_functor p1) (registry r s)"
    using r2 len by (rule index_filter_pairing)
  have f2: "index_filter cnt (selection_functor p2) (registry r x4)
          = index_filter cnt (selection_functor p2) (registry r s)"
    using index_filter_pairing [OF r4 len4] index_filter_pairing [OF r2 len] by simp
  have r6s: "map pairing_of (registry r x6) = map pairing_of (registry r s)"
    using r6 r4 r2 by simp
  have f3: "index_filter cnt (selection_functor p3) (registry r x6)
          = index_filter cnt (selection_functor p3) (registry r s)"
    using r6s len by (rule index_filter_pairing)
  have "compactions (events s') = compactions (events s)
           @ [(p1, r, index_filter cnt (selection_functor p1) (registry r s)),
              (p2, r, index_filter cnt (selection_functor p2) (registry r s)),
              (p3, r, index_filter cnt (selection_functor p3) (registry r s))]"
    using o8 a7 o6 a5 o4 a3 o2 by (simp add: f1 f2 f3)
  moreover have "map pairing_of (best_data s') = map pairing_of (best_data s)"
    "map pairing_of (best_data_o s') = map pairing_of (best_data_o s)"
    using o8 a7 o6 a5 o4 a3 o2 by simp_all
  ultimately show ?thesis by simp
qed


lemmas keeps_pairing_simps =
  keeps_pairing_quiet_steps keeps_pairing_launch keeps_when_nz keeps_seq

lemma finish_anchor_best_pairing:
  assumes "kernels_keep_pairing P"
  shows "keeps (\<lambda>s. (map pairing_of (best_data s), map pairing_of (best_data_o s),
                     compactions (events s))) (finish_anchor_best P cnt)"
  unfolding finish_anchor_best_def
  by (rule keeps_seq) (simp add: keeps_pairing_simps assms)

lemma finish_opposite_best_pairing:
  assumes "finish_opposite_best P cnt s = Inr s'"
      and "kernels_keep_pairing P" and "a_sat P = selection_functor"
  shows "map pairing_of (best_data s') = map pairing_of (best_data s) \<and>
         map pairing_of (best_data_o s') = map pairing_of (best_data_o s) \<and>
         compactions (events s') = compactions (events s)
           @ [(Is_paired, Opposite_data,
                 index_filter cnt (selection_functor Is_paired) (registry Opposite_data s)),
              (Is_unpaired, Opposite_data,
                 index_filter cnt (selection_functor Is_unpaired) (registry Opposite_data s)),
              (Is_aligned, Opposite_data,
                 index_filter cnt (selection_functor Is_aligned) (registry Opposite_data s))]"
  using assms(1) unfolding finish_opposite_best_def
  by (rule three_compactions) (simp_all add: keeps_pairing_simps assms(2,3))

lemma finish_opposite_second_pairing:
  assumes "finish_opposite_second P cnt s = Inr s'"
      and "kernels_keep_pairing P" and "a_sat P = selection_functor"
  shows "map pairing_of (best_data s') = map pairing_of (best_data s) \<and>
         map pairing_of (best_data_o s') = map pairing_of (best_data_o s) \<and>
         compactions (events s') = compactions (events s)
           @ [(Has_second_paired, Opposite_data,
                 index_filter cnt (selection_functor Has_second_paired) (registry Opposite_data s)),
              (Has_second_unpaired, Opposite_data,
                 index_filter cnt (selection_functor Has_second_unpaired) (registry Opposite_data s)),
              (Has_second, Opposite_data,
                 index_filter cnt (selection_functor Has_second) (registry Opposite_data s))]"
  using assms(1) unfolding finish_opposite_second_def
  by (rule three_compactions) (simp_all add: keeps_pairing_simps assms(2,3))

lemma finish_anchor_second_pairing:
  assumes run: "finish_anchor_second P cnt s = Inr s'"
      and keep: "kernels_keep_pairing P" and sat: "a_sat P = selection_functor"
  shows "map pairing_of (best_data s') = map pairing_of (best_data s) \<and>
         map pairing_of (best_data_o s') = map pairing_of (best_data_o s) \<and>
         compactions (events s') = compactions (events s)
           @ [(Has_second, Anchor_data,
                 index_filter cnt (selection_functor Has_second) (registry Anchor_data s))]"
proof -
  let ?O = "\<lambda>s. (map pairing_of (best_data s), map pairing_of (best_data_o s),
                  compactions (events s))"
  let ?w = "when_nz n_second
            (seq [clear_cigar, clear_mds,
                  launch P (\<lambda>s. Call Banded_traceback 1 (n_second s)
                                  (loc_idx (n_second s) s) Anchor_data),
                  a_check_error P ''second-best backtracking kernel'',
                  launch P (\<lambda>s. Call Finish_alignment 1 (n_second s)
                                  (loc_idx (n_second s) s) Anchor_data),
                  a_check_error P ''second-best alignment kernel''])"
  from run obtain x1 x2 where
    c: "compact P cnt Has_second Anchor_data (\<lambda>n s. s\<lparr>n_second := n\<rparr>) s = Inr x1" and
    w: "?w x1 = Inr x2" and
    p: "process MATE_1 SECOND_BEST_SCORE Anchor_data x2 = Inr s'"
    unfolding finish_anchor_second_def seq_Inr_Cons by auto
  have kw: "keeps ?O ?w"
    by (simp add: keeps_pairing_simps keep)
  note a = compact_pairing [OF c sat]
  have "?O x2 = ?O x1" using keepsD [OF kw w] by simp
  moreover have "?O s' = ?O x2" using keepsD [OF keeps_pairing_quiet_steps(4) p] by simp
  ultimately show ?thesis using a by simp
qed

text \<open>
  \<^bold>\<open>C3.\<close> In the finishing stages of a batch, every compaction yields the indices
  \<open>i < count\<close> whose best-alignments entry satisfies the functor, in increasing order, as
  read from the vectors the stages start with. For the best rank and for the second-best
  rank, the indices of the paired compaction and those of the unpaired compaction are
  disjoint, and together they are the indices of the aligned compaction (\<open>is_aligned\<close> for
  the best rank, \<open>has_second\<close> for the second-best rank), all over the opposite mate's
  vector.
\<close>

theorem paired_unpaired_partition_aligned:
  assumes run: "finish P cnt s = Inr s'"
      and keep: "kernels_keep_pairing P" and sat: "a_sat P = selection_functor"
  shows "compactions (events s') = compactions (events s)
           @ [(Is_paired, Opposite_data, index_filter cnt (selection_functor Is_paired) (best_data_o s)),
              (Is_unpaired, Opposite_data, index_filter cnt (selection_functor Is_unpaired) (best_data_o s)),
              (Is_aligned, Opposite_data, index_filter cnt (selection_functor Is_aligned) (best_data_o s)),
              (Has_second, Anchor_data, index_filter cnt (selection_functor Has_second) (best_data s)),
              (Has_second_paired, Opposite_data,
                 index_filter cnt (selection_functor Has_second_paired) (best_data_o s)),
              (Has_second_unpaired, Opposite_data,
                 index_filter cnt (selection_functor Has_second_unpaired) (best_data_o s)),
              (Has_second, Opposite_data, index_filter cnt (selection_functor Has_second) (best_data_o s))] \<and>
         set (index_filter cnt (selection_functor Is_paired) (best_data_o s))
           \<inter> set (index_filter cnt (selection_functor Is_unpaired) (best_data_o s)) = {} \<and>
         set (index_filter cnt (selection_functor Is_paired) (best_data_o s))
           \<union> set (index_filter cnt (selection_functor Is_unpaired) (best_data_o s))
           = set (index_filter cnt (selection_functor Is_aligned) (best_data_o s)) \<and>
         set (index_filter cnt (selection_functor Has_second_paired) (best_data_o s))
           \<inter> set (index_filter cnt (selection_functor Has_second_unpaired) (best_data_o s)) = {} \<and>
         set (index_filter cnt (selection_functor Has_second_paired) (best_data_o s))
           \<union> set (index_filter cnt (selection_functor Has_second_unpaired) (best_data_o s))
           = set (index_filter cnt (selection_functor Has_second) (best_data_o s)) \<and>
         unat cnt \<le> length (best_data_o s) \<and> unat cnt \<le> length (best_data s)"
proof -
  from run obtain t1 t2 t3 where
    1: "finish_anchor_best P cnt s = Inr t1" and 2: "finish_opposite_best P cnt t1 = Inr t2" and
    3: "finish_anchor_second P cnt t2 = Inr t3" and 4: "finish_opposite_second P cnt t3 = Inr s'"
    unfolding finish_def seq_Inr_Cons by auto
  have a: "map pairing_of (best_data t1) = map pairing_of (best_data s)"
    "map pairing_of (best_data_o t1) = map pairing_of (best_data_o s)"
    "compactions (events t1) = compactions (events s)"
    using keepsD [OF finish_anchor_best_pairing [OF keep] 1] by simp_all
  note b = finish_opposite_best_pairing [OF 2 keep sat]
  note c = finish_anchor_second_pairing [OF 3 keep sat]
  note d = finish_opposite_second_pairing [OF 4 keep sat]
  have lo: "unat cnt \<le> length (best_data_o t1)" and la: "unat cnt \<le> length (best_data t2)"
    and lo3: "unat cnt \<le> length (best_data_o t3)"
  proof -
    from 2 obtain x1 x2 x3 where
      "compact P cnt Is_paired Opposite_data (\<lambda>n s. s\<lparr>n_paired := n\<rparr>) x2 = Inr x3"
      "clear_cigar t1 = Inr x1" "clear_mds x1 = Inr x2"
      unfolding finish_opposite_best_def seq_Inr_Cons by auto
    then show "unat cnt \<le> length (best_data_o t1)"
      using compact_pairing [OF _ sat, of cnt Is_paired Opposite_data "\<lambda>n s. s\<lparr>n_paired := n\<rparr>" x2 x3]
      by (auto simp: clear_cigar_def clear_mds_def emit_def registry_def)
    from 3 obtain y1 where
      "compact P cnt Has_second Anchor_data (\<lambda>n s. s\<lparr>n_second := n\<rparr>) t2 = Inr y1"
      unfolding finish_anchor_second_def seq_Inr_Cons by auto
    then show "unat cnt \<le> length (best_data t2)"
      using compact_pairing [OF _ sat, of cnt Has_second Anchor_data "\<lambda>n s. s\<lparr>n_second := n\<rparr>" t2 y1]
      by (auto simp: registry_def)
    from 4 obtain z1 z2 z3 where
      "compact P cnt Has_second_paired Opposite_data (\<lambda>n s. s\<lparr>n_second_paired := n\<rparr>) z2 = Inr z3"
      "clear_cigar t3 = Inr z1" "clear_mds z1 = Inr z2"
      unfolding finish_opposite_second_def seq_Inr_Cons by auto
    then show "unat cnt \<le> length (best_data_o t3)"
      using compact_pairing [OF _ sat, of cnt Has_second_paired Opposite_data
          "\<lambda>n s. s\<lparr>n_second_paired := n\<rparr>" z2 z3]
      by (auto simp: clear_cigar_def clear_mds_def emit_def registry_def)
  qed
  have los: "unat cnt \<le> length (best_data_o s)" using lo a(2) by (metis length_map)
  have las: "unat cnt \<le> length (best_data s)" using la b a(1) by (metis length_map)
  have m2: "map pairing_of (best_data t2) = map pairing_of (best_data s)"
    using b a by simp
  have m3: "map pairing_of (best_data_o t3) = map pairing_of (best_data_o s)"
    using c b a by simp
  have e1: "index_filter cnt (selection_functor p) (best_data_o t1)
          = index_filter cnt (selection_functor p) (best_data_o s)" for p
    using a(2) los by (rule index_filter_pairing)
  have e2: "index_filter cnt (selection_functor p) (best_data t2)
          = index_filter cnt (selection_functor p) (best_data s)" for p
    using m2 las by (rule index_filter_pairing)
  have e3: "index_filter cnt (selection_functor p) (best_data_o t3)
          = index_filter cnt (selection_functor p) (best_data_o s)" for p
    using m3 los by (rule index_filter_pairing)
  have "compactions (events s') = compactions (events s)
           @ [(Is_paired, Opposite_data, index_filter cnt (selection_functor Is_paired) (best_data_o s)),
              (Is_unpaired, Opposite_data, index_filter cnt (selection_functor Is_unpaired) (best_data_o s)),
              (Is_aligned, Opposite_data, index_filter cnt (selection_functor Is_aligned) (best_data_o s)),
              (Has_second, Anchor_data, index_filter cnt (selection_functor Has_second) (best_data s)),
              (Has_second_paired, Opposite_data,
                 index_filter cnt (selection_functor Has_second_paired) (best_data_o s)),
              (Has_second_unpaired, Opposite_data,
                 index_filter cnt (selection_functor Has_second_unpaired) (best_data_o s)),
              (Has_second, Opposite_data, index_filter cnt (selection_functor Has_second) (best_data_o s))]"
    using a(3) b c d by (simp add: registry_def e1 e2 e3)
  then show ?thesis
    using paired_unpaired_disjoint [of cnt "best_data_o s"]
      paired_unpaired_union [of cnt "best_data_o s"] los las
    by simp
qed

lemma record_prims_keep_pairing: "kernels_keep_pairing record_prims"
  by (simp add: kernels_keep_pairing_def record_prims_def pairing_of_def)

lemma record_prims_sat: "a_sat record_prims = selection_functor"
  by (simp add: record_prims_def)

text \<open>Three reads: the opposite mates are paired, unpaired with an unpaired second-best,
  and unaligned; the second read's anchor has a second-best alignment.\<close>

theorem paired_unpaired_partition_aligned_witness:
  "finish record_prims 3
      (batch_state [alignments Paired Unaligned, alignments Unpaired Paired,
                    alignments Unaligned Unaligned]
                   [alignments Paired Unaligned, alignments Unpaired Unpaired,
                    alignments Unaligned Unaligned])
     = Inr (projr (finish record_prims 3
      (batch_state [alignments Paired Unaligned, alignments Unpaired Paired,
                    alignments Unaligned Unaligned]
                   [alignments Paired Unaligned, alignments Unpaired Unpaired,
                    alignments Unaligned Unaligned]))) \<and>
   kernels_keep_pairing record_prims \<and>
   a_sat record_prims = selection_functor \<and>
   compactions (events (projr (finish record_prims 3
      (batch_state [alignments Paired Unaligned, alignments Unpaired Paired,
                    alignments Unaligned Unaligned]
                   [alignments Paired Unaligned, alignments Unpaired Unpaired,
                    alignments Unaligned Unaligned]))))
     = [(Is_paired, Opposite_data, [0]), (Is_unpaired, Opposite_data, [1]),
        (Is_aligned, Opposite_data, [0, 1]), (Has_second, Anchor_data, [1]),
        (Has_second_paired, Opposite_data, []), (Has_second_unpaired, Opposite_data, [1]),
        (Has_second, Opposite_data, [1])]"
proof -
  let ?a = "[alignments Paired Unaligned, alignments Unpaired Paired,
             alignments Unaligned Unaligned]"
  let ?o = "[alignments Paired Unaligned, alignments Unpaired Unpaired,
             alignments Unaligned Unaligned]"
  let ?s = "batch_state ?a ?o"
  have h: "finish record_prims 3 ?s = Inr (projr (finish record_prims 3 ?s))"
    by code_simp
  have s: "best_data ?s = ?a" "best_data_o ?s = ?o" "events ?s = []"
    by (simp_all add: batch_state_def)
  have v: "index_filter 3 (selection_functor Is_paired) ?o = [0]"
    "index_filter 3 (selection_functor Is_unpaired) ?o = [1]"
    "index_filter 3 (selection_functor Is_aligned) ?o = [0, 1]"
    "index_filter 3 (selection_functor Has_second) ?a = [1]"
    "index_filter 3 (selection_functor Has_second_paired) ?o = []"
    "index_filter 3 (selection_functor Has_second_unpaired) ?o = [1]"
    "index_filter 3 (selection_functor Has_second) ?o = [1]"
    by code_simp+
  from paired_unpaired_partition_aligned [OF h record_prims_keep_pairing record_prims_sat]
  have "compactions (events (projr (finish record_prims 3 ?s)))
     = [(Is_paired, Opposite_data, [0]), (Is_unpaired, Opposite_data, [1]),
        (Is_aligned, Opposite_data, [0, 1]), (Has_second, Anchor_data, [1]),
        (Has_second_paired, Opposite_data, []), (Has_second_unpaired, Opposite_data, [1]),
        (Has_second, Opposite_data, [1])]"
    by (simp only: s v compactions.simps append_Nil)
  with h record_prims_keep_pairing record_prims_sat show ?thesis by blast
qed

end
